theory Spec2Isabelle
  imports Complex_Main "HOL-Library.Word"
begin

section \<open>trackcutter: data model\<close>

text \<open>
  The embedding follows \<^verbatim>\<open>src/trackcutter.c\<close>. The two process-wide singletons
  \<^verbatim>\<open>options\<close> and \<^verbatim>\<open>state\<close> become two records that are passed explicitly.
  Modelling conventions:
  \<^item> C \<^verbatim>\<open>double\<close> samples are exact reals, so every statement about sample values is a
    statement in exact arithmetic (rounding, signed zeros and NaNs are outside the model);
  \<^item> C \<^verbatim>\<open>int\<close> and \<^verbatim>\<open>sf_count_t\<close> counters are unbounded integers (signed overflow
    is undefined in C and is not modelled); the sample rate, the channel count and the
    RMS window length, which the codec delivers as positive numbers, are naturals;
  \<^item> a pointer into one of the buffers is its offset from the buffer base, counted in
    samples (so \<^verbatim>\<open>p += numchannels\<close> is \<open>p + numchannels\<close>), and a buffer is the
    list of its samples;
  \<^item> everything written to the cut sheet, to a track file or as a warning is appended to
    an event list, the field \<open>sink\<close>; sink write failures, names file read failures and
    the \<^verbatim>\<open>verbose\<close> diagnostics are not modelled.
\<close>

datatype tc_task_t = TCT_CUTTING | TCT_ANALYSIS

datatype cut_context_t = CCTX_SILENCE | CCTX_TRACK | CCTX_TRACK_STARTING | CCTX_TRACK_ENDING

datatype cut_point_action_t = CPA_LOG_POINT | CPA_EXTRACT_TRACK

text \<open>Every \<^verbatim>\<open>error(EXIT_FAILURE, ...)\<close> of the modelled functions is one constructor.\<close>

datatype error =
    RangeNotTwoFields
  | BoundaryNegative
  | BoundaryMalformed
  | RangeEndBeforeStart
  | SeekFailed
  | LeadingReadFailed
  | ReadFailed
  | DivideByZero

definition MAX_CHANNELS :: nat where
  "MAX_CHANNELS = 8"

definition RMS_WINDOW_PERIOD :: nat where
  "RMS_WINDOW_PERIOD = 50"

definition INT_MAX :: int where
  "INT_MAX = 2147483647"

definition SF_COUNT_MAX :: int where
  "SF_COUNT_MAX = 9223372036854775807"

definition HIGH_PASS_CORNER_FREQ :: real where
  "HIGH_PASS_CORNER_FREQ = 20"

definition HIGH_PASS_TAU :: real where
  "HIGH_PASS_TAU = 1 / (2 * pi * HIGH_PASS_CORNER_FREQ)"

record options =
  task :: tc_task_t
  cut_point_action :: cut_point_action_t
  min_silence_period :: int
  min_signal_period :: int
  noise_floor_dbfs :: real
  min_track_length :: int
  time_range_given :: bool
  start_time :: real
  end_time :: "real option"
  start_frame_idx :: int
  end_frame_idx :: int
  track_num_start :: int
  track_num_end :: int
  dc_offset :: "real list"
  high_pass_filter_enabled :: bool
  no_cuts_file_header :: bool

text \<open>
  \<^verbatim>\<open>init_options\<close>: everything zeroed, then the defaults. An \<open>end_time\<close> of \<open>None\<close>
  stands for \<^verbatim>\<open>INFINITY\<close>.
\<close>

definition init_options :: options where
  "init_options = \<lparr>
     task = TCT_CUTTING,
     cut_point_action = CPA_LOG_POINT,
     min_silence_period = 2000,
     min_signal_period = 100,
     noise_floor_dbfs = - 48,
     min_track_length = 40,
     time_range_given = False,
     start_time = 0,
     end_time = Some 0,
     start_frame_idx = 0,
     end_frame_idx = SF_COUNT_MAX,
     track_num_start = 0,
     track_num_end = INT_MAX,
     dc_offset = replicate MAX_CHANNELS 0,
     high_pass_filter_enabled = False,
     no_cuts_file_header = False \<rparr>"

section \<open>Range arguments\<close>

text \<open>
  \<^verbatim>\<open>isspace\<close> in the C locale, and the \<^verbatim>\<open>%lld\<close> conversion of \<^verbatim>\<open>sscanf\<close>: leading
  white space is skipped, then an optional sign and at least one decimal digit are
  read. The result is the value and the unread rest, or \<open>None\<close> when nothing converts.
\<close>

definition isspace :: "char \<Rightarrow> bool" where
  "isspace c = (c \<in> set [CHR '' '', CHR 0x09, CHR 0x0A, CHR 0x0B, CHR 0x0C, CHR 0x0D])"

definition isdigit :: "char \<Rightarrow> bool" where
  "isdigit c = (48 \<le> (of_char c :: nat) \<and> (of_char c :: nat) \<le> 57)"

definition digit_val :: "char \<Rightarrow> int" where
  "digit_val c = int (of_char c) - 48"

definition digits_val :: "string \<Rightarrow> int" where
  "digits_val ds = foldl (\<lambda>acc c. 10 * acc + digit_val c) 0 ds"

definition scan_unsigned :: "string \<Rightarrow> (int \<times> string) option" where
  "scan_unsigned s =
     (let ds = takeWhile isdigit s in
      if ds = [] then None else Some (digits_val ds, dropWhile isdigit s))"

definition scan_lld :: "string \<Rightarrow> (int \<times> string) option" where
  "scan_lld s =
     (case dropWhile isspace s of
        [] \<Rightarrow> None
      | c # cs \<Rightarrow>
          if c = CHR ''-'' then map_option (\<lambda>(n, r). (- n, r)) (scan_unsigned cs)
          else if c = CHR ''+'' then scan_unsigned cs
          else scan_unsigned (c # cs))"

text \<open>
  \<^verbatim>\<open>parse_int_boundary\<close>. With \<^verbatim>\<open>"%lld %n"\<close> the index stored by \<^verbatim>\<open>%n\<close> is the
  position after the number and the white space that follows it; with \<^verbatim>\<open>" %n"\<close> it is
  the position after the leading white space. The string is malformed when that
  position is not its end.
\<close>

definition parse_int_boundary :: "string \<Rightarrow> int \<Rightarrow> error + int" where
  "parse_int_boundary s dfl =
     (case scan_lld s of
        Some (n, rest) \<Rightarrow>
          if n < 0 then Inl BoundaryNegative
          else if dropWhile isspace rest \<noteq> [] then Inl BoundaryMalformed
          else Inr n
      | None \<Rightarrow>
          if dropWhile isspace s \<noteq> [] then Inl BoundaryMalformed
          else Inr dfl)"

text \<open>
  \<^verbatim>\<open>strchr(optarg, '-')\<close> and \<^verbatim>\<open>strrchr(optarg, '-')\<close> agree exactly when the
  argument holds one hyphen; the argument is then split there.
\<close>

definition one_hyphen :: "string \<Rightarrow> bool" where
  "one_hyphen s = (length (filter (\<lambda>c. c = CHR ''-'') s) = 1)"

definition before_hyphen :: "string \<Rightarrow> string" where
  "before_hyphen s = takeWhile (\<lambda>c. c \<noteq> CHR ''-'') s"

definition after_hyphen :: "string \<Rightarrow> string" where
  "after_hyphen s = tl (dropWhile (\<lambda>c. c \<noteq> CHR ''-'') s)"

text \<open>The conversion of an \<^verbatim>\<open>sf_count_t\<close> to the 32-bit \<^verbatim>\<open>int\<close> fields of the options.\<close>

definition to_int32 :: "int \<Rightarrow> int" where
  "to_int32 n = sint (word_of_int n :: 32 word)"

definition parse_frame_range :: "string \<Rightarrow> options \<Rightarrow> error + options" where
  "parse_frame_range optarg opts =
     (if \<not> one_hyphen optarg then Inl RangeNotTwoFields
      else case parse_int_boundary (before_hyphen optarg) 0 of
        Inl e \<Rightarrow> Inl e
      | Inr a \<Rightarrow>
         (case parse_int_boundary (after_hyphen optarg) SF_COUNT_MAX of
            Inl e \<Rightarrow> Inl e
          | Inr b \<Rightarrow>
              let opts1 = opts\<lparr>start_frame_idx := a, end_frame_idx := b\<rparr> in
              if end_frame_idx opts1 < start_frame_idx opts1 then Inl RangeEndBeforeStart
              else Inr (opts1\<lparr>time_range_given := False\<rparr>)))"

definition parse_track_range :: "string \<Rightarrow> options \<Rightarrow> error + options" where
  "parse_track_range optarg opts =
     (if \<not> one_hyphen optarg then Inl RangeNotTwoFields
      else case parse_int_boundary (before_hyphen optarg) 1 of
        Inl e \<Rightarrow> Inl e
      | Inr a \<Rightarrow>
         (case parse_int_boundary (after_hyphen optarg) INT_MAX of
            Inl e \<Rightarrow> Inl e
          | Inr b \<Rightarrow>
              let opts1 = opts\<lparr>track_num_start := to_int32 a, track_num_end := to_int32 b\<rparr> in
              if end_frame_idx opts1 < start_frame_idx opts1 then Inl RangeEndBeforeStart
              else Inr opts1))"

section \<open>The codec, the sinks and the program state\<close>

text \<open>
  The codec collaborator. An opened input is its sample rate, its channel count and
  the items still to be read: a frame of samples, or a read fault. The end of the list
  is the end of the file. \<open>sf_readf_double items n\<close> reads up to \<open>n\<close> frames: it
  gives the frames read and the items left, or \<open>None\<close> for the negative return value.
  \<open>sf_seek\<close> fails beyond the end of the data.
\<close>

datatype rd_item = Frame "real list" | ReadFault

record sndfile =
  sf_samplerate :: nat
  sf_channels :: nat
  sf_items :: "rd_item list"

fun sf_readf_double :: "rd_item list \<Rightarrow> nat \<Rightarrow> (real list list \<times> rd_item list) option" where
  "sf_readf_double items 0 = Some ([], items)"
| "sf_readf_double [] (Suc n) = Some ([], [])"
| "sf_readf_double (ReadFault # rest) (Suc n) = None"
| "sf_readf_double (Frame f # rest) (Suc n) =
     (case sf_readf_double rest n of
        None \<Rightarrow> None
      | Some (fs, rest') \<Rightarrow> Some (f # fs, rest'))"

definition sf_seek :: "rd_item list \<Rightarrow> int \<Rightarrow> rd_item list option" where
  "sf_seek items n = (if n \<le> int (length items) then Some (drop (nat n) items) else None)"

text \<open>
  What reaches the outside: a row of the cut sheet (track number, start, end, name; the
  duration is end minus start), the header of the cut sheet, the creation of a track
  file (under the track name, or under the zero-padded track number), frames written
  to the open track file, its closing, and the lead-in overflow warning.
\<close>

datatype out_name = Named string | Numbered int

datatype event =
    CutHeader
  | CutRow int int int string
  | OutCreate out_name
  | OutWrite "real list list"
  | OutClose
  | LeadinOverflow

record state =
  in_file :: "rd_item list"
  out_file :: bool
  cuts_file :: bool
  track_names_file :: "string list option"
  sink :: "event list"
  in_eof :: bool
  frames_remaining :: int
  cut_context :: cut_context_t
  time_to_live :: int
  frames_read_ttl :: int
  frames_proc_ttl :: int
  cur_frame_pos :: int
  cur_track_num :: int
  cur_track_name :: "string option"
  cur_track_start :: int
  numchannels :: nat
  samplerate :: nat
  rms_window_len :: nat
  min_signal_len :: int
  min_silence_len :: int
  min_track_len :: int
  leadin_buf_len :: int
  ra_frame_cnt :: int
  alpha :: real
  n_x_nf_sq :: real
  x_sq_ttl :: "real list"
  hpf_rej :: "real list"
  hpf_rej_ttl :: "real list"
  hpf_out :: "real list"
  hpf_prev_out :: "real list"
  hpf_prev_rej :: "real list"
  sq_buf :: "real list"
  main_buf :: "real list"
  sq_buf_head :: nat
  sq_buf_tail :: nat
  sq_buf_cen :: nat
  sq_buf_edge :: nat
  main_buf_head :: nat
  main_buf_tail :: nat
  main_buf_cen :: nat
  main_buf_edge :: nat
  leadin_buf :: "real list"
  leadin_buf_end :: nat
  leadin_buf_edge :: nat

text \<open>
  \<open>out_file\<close> and \<open>cuts_file\<close> say whether the handle is non-null. The track names
  file is the list of the lines \<^verbatim>\<open>getline\<close> will still return. The statistics of the
  analysis mode are left out.

  \<open>store_frame\<close> is \<^verbatim>\<open>memcpy\<close> or \<^verbatim>\<open>memset\<close> of one frame into a buffer, and what
  \<^verbatim>\<open>sf_readf_double\<close> does with the frames it reads; \<open>load_frame\<close> reads \<open>n\<close> samples.
\<close>

definition store_frame :: "real list \<Rightarrow> nat \<Rightarrow> real list \<Rightarrow> real list" where
  "store_frame buf p f = fold (\<lambda>c b. b[p + c := f ! c]) [0..<length f] buf"

definition load_frame :: "real list \<Rightarrow> nat \<Rightarrow> nat \<Rightarrow> real list" where
  "load_frame buf p n = map (\<lambda>c. buf ! (p + c)) [0..<n]"

section \<open>The detector\<close>

function we_have_signal_from :: "state \<Rightarrow> nat \<Rightarrow> bool \<Rightarrow> bool" where
  "we_have_signal_from s c res =
     (if \<not> res \<and> c < numchannels s
      then we_have_signal_from s (c + 1) (n_x_nf_sq s < x_sq_ttl s ! c)
      else res)"
  by pat_completeness auto
termination
  by (relation "measure (\<lambda>(s, c, res). numchannels s - c)") auto

declare we_have_signal_from.simps [simp del]

definition we_have_signal :: "state \<Rightarrow> bool" where
  "we_have_signal s = we_have_signal_from s 0 False"

definition print_cuts_header :: "bool \<Rightarrow> state \<Rightarrow> state" where
  "print_cuts_header no_header s =
     (if \<not> no_header \<and> cuts_file s then s\<lparr>sink := sink s @ [CutHeader]\<rparr> else s)"

definition print_track_cut :: "state \<Rightarrow> state" where
  "print_track_cut s =
     (if cuts_file s
      then s\<lparr>sink := sink s @
             [CutRow (cur_track_num s) (cur_track_start s) (cur_frame_pos s)
                (case cur_track_name s of None \<Rightarrow> [] | Some n \<Rightarrow> n)]\<rparr>
      else s)"

text \<open>
  \<^verbatim>\<open>advance_buf_ptrs\<close> and the body of the channel loop of \<^verbatim>\<open>filter_new_frame\<close>,
  statement by statement: each \<open>let\<close> is one assignment of the source, on the pointer
  or the array it assigns, and the state is updated with the final values.
\<close>

definition advance_buf_ptrs :: "state \<Rightarrow> state" where
  "advance_buf_ptrs s =
     (let mh = main_buf_tail s;
          sh = sq_buf_tail s;
          mt = main_buf_tail s + numchannels s;
          mc = main_buf_cen s + numchannels s;
          st = sq_buf_tail s + numchannels s;
          sc = sq_buf_cen s + numchannels s;
          mt = (if mt \<ge> main_buf_edge s then 0 else mt);
          mc = (if mc \<ge> main_buf_edge s then 0 else mc);
          st = (if st \<ge> sq_buf_edge s then 0 else st);
          sc = (if sc \<ge> sq_buf_edge s then 0 else sc)
      in s\<lparr>main_buf_head := mh, sq_buf_head := sh, main_buf_tail := mt, main_buf_cen := mc,
           sq_buf_tail := st, sq_buf_cen := sc\<rparr>)"

definition filter_channel :: "options \<Rightarrow> nat \<Rightarrow> state \<Rightarrow> state" where
  "filter_channel opts c s =
     (let h = main_buf_head s + c;
          q = sq_buf_head s + c;
          xsq = (x_sq_ttl s)[c := x_sq_ttl s ! c - sq_buf s ! q];
          mb = (main_buf s)[h := main_buf s ! h + dc_offset opts ! c];
          ho = (hpf_out s)[c := alpha s * (mb ! h - hpf_prev_rej s ! c)];
          hr = (hpf_rej s)[c := mb ! h - ho ! c];
          hpo = (hpf_prev_out s)[c := ho ! c];
          hpr = (hpf_prev_rej s)[c := hr ! c];
          mb = (if high_pass_filter_enabled opts then mb[h := ho ! c] else mb);
          hrt = (if high_pass_filter_enabled opts then hpf_rej_ttl s
                 else (hpf_rej_ttl s)[c := hpf_rej_ttl s ! c + hr ! c]);
          sq = (sq_buf s)[q := mb ! h * mb ! h];
          xsq = xsq[c := xsq ! c + sq ! q]
      in s\<lparr>x_sq_ttl := xsq, main_buf := mb, hpf_out := ho, hpf_rej := hr,
           hpf_prev_out := hpo, hpf_prev_rej := hpr, hpf_rej_ttl := hrt, sq_buf := sq\<rparr>)"

definition filter_new_frame :: "options \<Rightarrow> state \<Rightarrow> state" where
  "filter_new_frame opts s0 =
     (let s = fold (filter_channel opts) [0..<numchannels s0] s0
      in s\<lparr>frames_proc_ttl := frames_proc_ttl s + 1\<rparr>)"

text \<open>
  \<^verbatim>\<open>fetch_next_frame\<close> in two parts. \<open>fetch_source\<close> is its \<^verbatim>\<open>if\<close>/\<^verbatim>\<open>else\<close> block,
  which puts the next frame (read from the codec, or zeros) at the tail of the main
  buffer; it returns the local flag \<^verbatim>\<open>eof\<close> with the state. \<open>fetch_next_frame\<close> then
  moves the position and the buffer pointers, filters the new head frame and returns
  \<^verbatim>\<open>!eof\<close>.
\<close>

definition fetch_source :: "state \<Rightarrow> error + (bool \<times> state)" where
  "fetch_source s0 =
     (if \<not> in_eof s0 \<and> frames_remaining s0 > 0 then
        let s = s0\<lparr>frames_remaining := frames_remaining s0 - 1\<rparr> in
        case sf_readf_double (in_file s) 1 of
          None \<Rightarrow> Inl ReadFailed
        | Some (fs, rest) \<Rightarrow>
            if fs = [] then
              let s = s\<lparr>in_file := rest, in_eof := True\<rparr>;
                  s = (if ra_frame_cnt s < frames_remaining s
                       then s\<lparr>frames_remaining := ra_frame_cnt s\<rparr> else s);
                  s = s\<lparr>main_buf := store_frame (main_buf s) (main_buf_tail s)
                          (replicate (numchannels s) 0)\<rparr>
              in Inr (False, s)
            else
              let s = s\<lparr>in_file := rest,
                        main_buf := store_frame (main_buf s) (main_buf_tail s) (concat fs)\<rparr>;
                  s = s\<lparr>frames_read_ttl := frames_read_ttl s + 1\<rparr>
              in Inr (False, s)
      else
        let s = s0\<lparr>main_buf := store_frame (main_buf s0) (main_buf_tail s0)
                      (replicate (numchannels s0) 0)\<rparr>
        in if frames_remaining s > 0
           then Inr (False, s\<lparr>frames_remaining := frames_remaining s - 1\<rparr>)
           else Inr (True, s))"

definition fetch_next_frame :: "options \<Rightarrow> state \<Rightarrow> error + (bool \<times> state)" where
  "fetch_next_frame opts s0 =
     (case fetch_source s0 of
        Inl e \<Rightarrow> Inl e
      | Inr (eof, s) \<Rightarrow>
          let s = s\<lparr>cur_frame_pos := cur_frame_pos s + 1\<rparr>;
              s = advance_buf_ptrs s;
              s = filter_new_frame opts s
          in Inr (\<not> eof, s))"

section \<open>The lead-in buffer and the sinks\<close>

definition leadin_buf_add :: "options \<Rightarrow> state \<Rightarrow> state" where
  "leadin_buf_add opts s =
     (if cut_point_action opts = CPA_EXTRACT_TRACK then
        if leadin_buf_end s < leadin_buf_edge s
        then s\<lparr>leadin_buf := store_frame (leadin_buf s) (leadin_buf_end s)
                  (load_frame (main_buf s) (main_buf_cen s) (numchannels s)),
               leadin_buf_end := leadin_buf_end s + numchannels s\<rparr>
        else s\<lparr>sink := sink s @ [LeadinOverflow]\<rparr>
      else s)"

definition leadin_buf_commit :: "options \<Rightarrow> state \<Rightarrow> state" where
  "leadin_buf_commit opts s =
     (if cut_point_action opts = CPA_EXTRACT_TRACK then
        let num_frames = leadin_buf_end s div numchannels s
        in s\<lparr>sink := sink s @
               [OutWrite (map (\<lambda>i. load_frame (leadin_buf s) (i * numchannels s) (numchannels s))
                            [0..<num_frames])]\<rparr>
      else s)"

definition leadin_buf_purge :: "options \<Rightarrow> state \<Rightarrow> state" where
  "leadin_buf_purge opts s =
     (if cut_point_action opts = CPA_EXTRACT_TRACK then s\<lparr>leadin_buf_end := 0\<rparr> else s)"

text \<open>
  \<^verbatim>\<open>fetch_next_track_name\<close>: \<^verbatim>\<open>getline\<close> gives the next line, whose trailing white
  space is trimmed; at the end of the names file the file is closed and the name
  becomes \<^verbatim>\<open>NULL\<close>.
\<close>

definition fetch_next_track_name :: "state \<Rightarrow> state" where
  "fetch_next_track_name s =
     (case track_names_file s of
        None \<Rightarrow> s
      | Some [] \<Rightarrow> s\<lparr>track_names_file := None, cur_track_name := None\<rparr>
      | Some (l # rest) \<Rightarrow>
          s\<lparr>track_names_file := Some rest,
            cur_track_name := Some (rev (dropWhile isspace (rev l)))\<rparr>)"

text \<open>
  \<^verbatim>\<open>create_new_out_file\<close>. The file extension comes from the codec's format table and
  is not part of the model, nor is a failure to create the file.
\<close>

definition create_new_out_file :: "options \<Rightarrow> state \<Rightarrow> state" where
  "create_new_out_file opts s0 =
     (let s = fetch_next_track_name s0;
          name = (case cur_track_name s of
                    Some n \<Rightarrow> if n \<noteq> [] then Named n else Numbered (cur_track_num s)
                  | None \<Rightarrow> Numbered (cur_track_num s));
          s = s\<lparr>out_file := True, sink := sink s @ [OutCreate name]\<rparr>;
          s = leadin_buf_commit opts s;
          s = leadin_buf_purge opts s
      in s)"

definition close_out_file :: "state \<Rightarrow> state" where
  "close_out_file s =
     (if out_file s then s\<lparr>out_file := False, sink := sink s @ [OutClose]\<rparr> else s)"

definition force_end_of_track :: "options \<Rightarrow> state \<Rightarrow> state" where
  "force_end_of_track opts s0 =
     (let s = (if cut_point_action opts = CPA_LOG_POINT then
                 if cut_context s0 = CCTX_TRACK \<or> cut_context s0 = CCTX_TRACK_ENDING
                 then print_track_cut s0 else s0
               else close_out_file s0)
      in case cur_track_name s of
           Some n \<Rightarrow> s\<lparr>cur_track_name := Some []\<rparr>
         | None \<Rightarrow> s)"

definition commit_current_frame :: "options \<Rightarrow> state \<Rightarrow> state" where
  "commit_current_frame opts s =
     (if cut_point_action opts = CPA_LOG_POINT then s
      else s\<lparr>sink := sink s @
             [OutWrite [load_frame (main_buf s) (main_buf_cen s) (numchannels s)]]\<rparr>)"

section \<open>The segmentation state machine\<close>

definition update_context :: "options \<Rightarrow> state \<Rightarrow> state" where
  "update_context opts s =
     (case cut_context s of
        CCTX_SILENCE \<Rightarrow>
          if we_have_signal s then
            leadin_buf_add opts
              (s\<lparr>cut_context := CCTX_TRACK_STARTING,
                 time_to_live := min_signal_len s - 1,
                 cur_track_start := cur_frame_pos s\<rparr>)
          else s
      | CCTX_TRACK_STARTING \<Rightarrow>
          if \<not> we_have_signal s then
            (leadin_buf_purge opts s)\<lparr>cut_context := CCTX_SILENCE\<rparr>
          else if time_to_live s > 0 then
            (let s1 = leadin_buf_add opts s in s1\<lparr>time_to_live := time_to_live s1 - 1\<rparr>)
          else
            (let s1 = s\<lparr>cut_context := CCTX_TRACK\<rparr>;
                 s2 = (if cut_point_action opts = CPA_LOG_POINT
                       then fetch_next_track_name s1
                       else create_new_out_file opts s1)
             in commit_current_frame opts s2)
      | CCTX_TRACK_ENDING \<Rightarrow>
          (let s1 = commit_current_frame opts s in
           if we_have_signal s1 then s1\<lparr>cut_context := CCTX_TRACK\<rparr>
           else if time_to_live s1 > 0 then s1\<lparr>time_to_live := time_to_live s1 - 1\<rparr>
           else
             (let s2 = force_end_of_track opts s1;
                  s3 = s2\<lparr>cut_context := CCTX_SILENCE\<rparr>
              in s3\<lparr>cur_track_num := cur_track_num s3 + 1\<rparr>))
      | CCTX_TRACK \<Rightarrow>
          (let s1 = commit_current_frame opts s in
           if \<not> we_have_signal s1
              \<and> cur_frame_pos s1 \<ge> cur_track_start s1 + min_track_len s1
           then s1\<lparr>cut_context := CCTX_TRACK_ENDING, time_to_live := min_silence_len s1\<rparr>
           else s1))"

section \<open>Startup\<close>

text \<open>
  C integer division truncates towards zero. \<open>open_input_file\<close> converts a time range
  to a frame range (the cast of a non-negative product to \<^verbatim>\<open>sf_count_t\<close> is its floor),
  seeks to the start and sets the position and the number of frames left.
\<close>

definition c_div :: "int \<Rightarrow> int \<Rightarrow> int" where
  "c_div a b = sgn a * sgn b * (\<bar>a\<bar> div \<bar>b\<bar>)"

definition zero_state :: state where
  "zero_state = \<lparr>
     in_file = [], out_file = False, cuts_file = False, track_names_file = None, sink = [],
     in_eof = False, frames_remaining = 0, cut_context = CCTX_SILENCE, time_to_live = 0,
     frames_read_ttl = 0, frames_proc_ttl = 0, cur_frame_pos = 0, cur_track_num = 0,
     cur_track_name = None, cur_track_start = 0, numchannels = 0, samplerate = 0,
     rms_window_len = 0, min_signal_len = 0, min_silence_len = 0, min_track_len = 0,
     leadin_buf_len = 0, ra_frame_cnt = 0, alpha = 0, n_x_nf_sq = 0,
     x_sq_ttl = replicate MAX_CHANNELS 0, hpf_rej = replicate MAX_CHANNELS 0,
     hpf_rej_ttl = replicate MAX_CHANNELS 0, hpf_out = replicate MAX_CHANNELS 0,
     hpf_prev_out = replicate MAX_CHANNELS 0, hpf_prev_rej = replicate MAX_CHANNELS 0,
     sq_buf = [], main_buf = [], sq_buf_head = 0, sq_buf_tail = 0, sq_buf_cen = 0,
     sq_buf_edge = 0, main_buf_head = 0, main_buf_tail = 0, main_buf_cen = 0,
     main_buf_edge = 0, leadin_buf = [], leadin_buf_end = 0, leadin_buf_edge = 0 \<rparr>"

definition open_input_file :: "options \<Rightarrow> sndfile \<Rightarrow> state \<Rightarrow> error + state" where
  "open_input_file opts sf s =
     (let R = sf_samplerate sf;
          start_idx = (if time_range_given opts then \<lfloor>start_time opts * real R\<rfloor>
                       else start_frame_idx opts);
          end_idx = (if time_range_given opts
                     then (case end_time opts of
                             Some e \<Rightarrow> \<lfloor>e * real R\<rfloor>
                           | None \<Rightarrow> SF_COUNT_MAX)
                     else end_frame_idx opts)
      in case (if start_idx > 0 then sf_seek (sf_items sf) start_idx
               else Some (sf_items sf)) of
           None \<Rightarrow> Inl SeekFailed
         | Some items \<Rightarrow>
             Inr (s\<lparr>in_file := items, samplerate := R, numchannels := sf_channels sf,
                    cur_frame_pos := start_idx, frames_remaining := end_idx - start_idx\<rparr>))"

text \<open>
  \<^verbatim>\<open>open_track_names_file\<close> skips one line of the names file for every track number
  below \<open>track_num_start\<close>. \<open>feof\<close> becomes true when a read meets the end of the file:
  on an empty rest, or on a last line without a newline.
\<close>

function skip_track_names :: "int \<Rightarrow> int \<Rightarrow> string list \<Rightarrow> bool \<Rightarrow> int \<times> string list \<times> bool" where
  "skip_track_names start n ls feof =
     (if n < start \<and> \<not> feof then
        (case ls of
           [] \<Rightarrow> skip_track_names start (n + 1) [] True
         | l # rest \<Rightarrow> skip_track_names start (n + 1) rest (l = [] \<or> last l \<noteq> CHR 0x0A))
      else (n, ls, feof))"
  by pat_completeness auto
termination
  by (relation "measure (\<lambda>(start, n, ls, feof). nat (start - n))") auto

declare skip_track_names.simps [simp del]

definition open_track_names_file :: "options \<Rightarrow> string list \<Rightarrow> state \<Rightarrow> state" where
  "open_track_names_file opts names s =
     (case skip_track_names (track_num_start opts) 1 names False of
        (n, ls, feof) \<Rightarrow>
          if feof then s\<lparr>cur_track_num := track_num_start opts, track_names_file := None\<rparr>
          else s\<lparr>cur_track_num := n, track_names_file := Some ls\<rparr>)"

definition create_cuts_file :: "options \<Rightarrow> state \<Rightarrow> state" where
  "create_cuts_file opts s = print_cuts_header (no_cuts_file_header opts) (s\<lparr>cuts_file := True\<rparr>)"

text \<open>
  The priming loop of \<^verbatim>\<open>init_state\<close>, which borrows the head pointers as loop
  counters. \<^verbatim>\<open>init_state\<close> has divided by \<open>numchannels\<close> before it enters the loop, so
  the loop runs with a positive channel count; the guard \<open>0 < numchannels s\<close> records
  that, and makes the function total.
\<close>

lemma filter_channel_frame [simp]:
  "numchannels (filter_channel opts c s) = numchannels s"
  "main_buf_head (filter_channel opts c s) = main_buf_head s"
  "main_buf_edge (filter_channel opts c s) = main_buf_edge s"
  "sq_buf_head (filter_channel opts c s) = sq_buf_head s"
  by (simp_all add: filter_channel_def Let_def)

lemma fold_filter_channel_frame [simp]:
  "numchannels (fold (filter_channel opts) cs s) = numchannels s"
  "main_buf_head (fold (filter_channel opts) cs s) = main_buf_head s"
  "main_buf_edge (fold (filter_channel opts) cs s) = main_buf_edge s"
  "sq_buf_head (fold (filter_channel opts) cs s) = sq_buf_head s"
  by (induction cs arbitrary: s) simp_all

lemma filter_new_frame_frame [simp]:
  "numchannels (filter_new_frame opts s) = numchannels s"
  "main_buf_head (filter_new_frame opts s) = main_buf_head s"
  "main_buf_edge (filter_new_frame opts s) = main_buf_edge s"
  "sq_buf_head (filter_new_frame opts s) = sq_buf_head s"
  by (simp_all add: filter_new_frame_def Let_def)

function prime_buffers :: "options \<Rightarrow> state \<Rightarrow> state" where
  "prime_buffers opts s =
     (if main_buf_head s < main_buf_edge s \<and> 0 < numchannels s then
        let s1 = filter_new_frame opts s;
            s2 = s1\<lparr>main_buf_head := main_buf_head s1 + numchannels s1\<rparr>;
            s3 = s2\<lparr>sq_buf_head := sq_buf_head s2 + numchannels s2\<rparr>
        in prime_buffers opts s3
      else s)"
  by pat_completeness auto
termination
  by (relation "measure (\<lambda>(opts, s). main_buf_edge s - main_buf_head s)") auto

declare prime_buffers.simps [simp del]

text \<open>
  The block of \<^verbatim>\<open>init_state\<close> for the cutting task: threshold, dwell lengths, lead-in
  buffer, names file, cut sheet. \<^verbatim>\<open>exp2\<close> is \<open>2 powr _\<close> and \<^verbatim>\<open>log10(2)\<close> is
  \<open>log 10 2\<close>; \<open>noise_floor_level\<close> is the expression assigned to \<^verbatim>\<open>x_nf\<close>. The memory \<^verbatim>\<open>malloc\<close> returns for the lead-in buffer is modelled as
  zeros; it is read only where it has been written.
\<close>

definition noise_floor_level :: "real \<Rightarrow> real" where
  "noise_floor_level dbfs = 2 powr (dbfs / (20 * log 10 2))"

definition init_cutting :: "options \<Rightarrow> string list option \<Rightarrow> state \<Rightarrow> state" where
  "init_cutting opts names s0 =
     (let x_nf = noise_floor_level (noise_floor_dbfs opts);
          s = s0\<lparr>n_x_nf_sq := x_nf * x_nf * real (rms_window_len s0),
                 min_silence_len := c_div (int (samplerate s0) * min_silence_period opts) 1000,
                 min_signal_len := c_div (int (samplerate s0) * min_signal_period opts) 1000,
                 min_track_len := int (samplerate s0) * min_track_length opts\<rparr>;
          s = (if cut_point_action opts = CPA_EXTRACT_TRACK
               then s\<lparr>leadin_buf_len := min_signal_len s,
                      leadin_buf := replicate (numchannels s * nat (min_signal_len s)) 0,
                      leadin_buf_edge := numchannels s * nat (min_signal_len s),
                      leadin_buf_end := 0\<rparr>
               else s);
          s = (case names of Some ls \<Rightarrow> open_track_names_file opts ls s | None \<Rightarrow> s);
          s = (if cut_point_action opts = CPA_LOG_POINT then create_cuts_file opts s else s)
      in s\<lparr>cut_context := CCTX_SILENCE\<rparr>)"

text \<open>
  \<^verbatim>\<open>init_state\<close>, in the order of the source. \<open>init_rings\<close>: the window is
  \<open>W = samplerate * 50 / 1000\<close> frames, both rings are zeroed (\<^verbatim>\<open>calloc\<close>), the centre
  pointers start \<open>W / 2\<close> frames into the rings, and the read-ahead count is the number
  of frames from the centre to the edge. \<open>init_leading\<close>: that many frames are read to
  the centre of the main ring, and the head pointers are set to the centre for the
  priming loop. \<open>init_pointers\<close>: head and tail after the loop. A channel count of zero
  is a division by zero. With \<open>W = 0\<close> the source forms a pointer before the (empty)
  ring, which has no meaning in C; the results below assume \<open>W \<ge> 1\<close>.
\<close>

definition init_rings :: "state \<Rightarrow> state" where
  "init_rings s0 =
     (let s = s0\<lparr>rms_window_len := samplerate s0 * RMS_WINDOW_PERIOD div 1000\<rparr>;
          s = s\<lparr>sq_buf := replicate (rms_window_len s * numchannels s) 0,
                sq_buf_edge := rms_window_len s * numchannels s,
                sq_buf_cen := (rms_window_len s div 2) * numchannels s,
                main_buf := replicate (rms_window_len s * numchannels s) 0,
                main_buf_edge := rms_window_len s * numchannels s,
                main_buf_cen := (rms_window_len s div 2) * numchannels s\<rparr>
      in s\<lparr>ra_frame_cnt := int ((main_buf_edge s - main_buf_cen s) div numchannels s),
           alpha := HIGH_PASS_TAU / (HIGH_PASS_TAU + 1 / real (samplerate s))\<rparr>)"

definition init_leading :: "real list list \<Rightarrow> rd_item list \<Rightarrow> state \<Rightarrow> state" where
  "init_leading fs rest s =
     s\<lparr>in_file := rest,
       main_buf := store_frame (main_buf s) (main_buf_cen s) (concat fs),
       frames_read_ttl := ra_frame_cnt s,
       main_buf_head := main_buf_cen s,
       sq_buf_head := sq_buf_cen s\<rparr>"

definition init_pointers :: "state \<Rightarrow> state" where
  "init_pointers s =
     s\<lparr>main_buf_head := main_buf_edge s - numchannels s, main_buf_tail := 0,
       sq_buf_head := sq_buf_edge s - numchannels s, sq_buf_tail := 0\<rparr>"

definition init_state :: "options \<Rightarrow> sndfile \<Rightarrow> string list option \<Rightarrow> error + state" where
  "init_state opts sf names =
     (case open_input_file opts sf (zero_state\<lparr>cur_track_num := 1\<rparr>) of
        Inl e \<Rightarrow> Inl e
      | Inr s0 \<Rightarrow>
          if numchannels s0 = 0 then Inl DivideByZero
          else
            let s1 = init_rings s0
            in case sf_readf_double (in_file s1) (nat (ra_frame_cnt s1)) of
                 None \<Rightarrow> Inl LeadingReadFailed
               | Some (fs, rest) \<Rightarrow>
                   let s2 = init_pointers (prime_buffers opts (init_leading fs rest s1))
                   in Inr (if task opts = TCT_CUTTING then init_cutting opts names s2 else s2))"

section \<open>The driver\<close>

text \<open>
  Two views of the state. \<open>dsp_part\<close> is what the frame source, the filter and the rings
  own together with the constants of the run; \<open>seg_part\<close> is what the state machine and
  the sinks own, with the same constants. The state machine leaves \<open>dsp_part\<close> alone, and
  fetching a frame leaves \<open>seg_part\<close> alone.
\<close>

definition dsp_part where
  "dsp_part s =
     (in_file s, in_eof s, frames_remaining s, frames_read_ttl s, frames_proc_ttl s,
      cur_frame_pos s, (numchannels s, samplerate s, rms_window_len s, min_signal_len s,
      min_silence_len s, min_track_len s, ra_frame_cnt s, n_x_nf_sq s, cuts_file s,
      leadin_buf_edge s, main_buf_edge s, sq_buf_edge s), x_sq_ttl s, sq_buf s, main_buf s,
      sq_buf_head s, sq_buf_tail s, sq_buf_cen s, main_buf_head s, main_buf_tail s,
      main_buf_cen s)"

definition seg_part where
  "seg_part s =
     (cut_context s, time_to_live s, cur_track_num s, cur_track_name s, cur_track_start s,
      out_file s, track_names_file s, sink s, leadin_buf s, leadin_buf_end s,
      (numchannels s, samplerate s, rms_window_len s, min_signal_len s,
      min_silence_len s, min_track_len s, ra_frame_cnt s, n_x_nf_sq s, cuts_file s,
      leadin_buf_edge s, main_buf_edge s, sq_buf_edge s))"

lemma dsp_sel:
  assumes "dsp_part s' = dsp_part s"
  shows "in_file s' = in_file s" "in_eof s' = in_eof s"
    "frames_remaining s' = frames_remaining s" "frames_read_ttl s' = frames_read_ttl s"
    "frames_proc_ttl s' = frames_proc_ttl s" "cur_frame_pos s' = cur_frame_pos s"
    "numchannels s' = numchannels s" "samplerate s' = samplerate s"
    "rms_window_len s' = rms_window_len s" "min_signal_len s' = min_signal_len s"
    "min_silence_len s' = min_silence_len s" "min_track_len s' = min_track_len s"
    "ra_frame_cnt s' = ra_frame_cnt s" "n_x_nf_sq s' = n_x_nf_sq s"
    "cuts_file s' = cuts_file s" "leadin_buf_edge s' = leadin_buf_edge s"
    "main_buf_edge s' = main_buf_edge s" "sq_buf_edge s' = sq_buf_edge s"
    "x_sq_ttl s' = x_sq_ttl s" "sq_buf s' = sq_buf s" "main_buf s' = main_buf s"
    "sq_buf_head s' = sq_buf_head s" "sq_buf_tail s' = sq_buf_tail s"
    "sq_buf_cen s' = sq_buf_cen s" "main_buf_head s' = main_buf_head s"
    "main_buf_tail s' = main_buf_tail s" "main_buf_cen s' = main_buf_cen s"
  using assms by (simp_all add: dsp_part_def)

lemma seg_sel:
  assumes "seg_part s' = seg_part s"
  shows "cut_context s' = cut_context s" "time_to_live s' = time_to_live s"
    "cur_track_num s' = cur_track_num s" "cur_track_name s' = cur_track_name s"
    "cur_track_start s' = cur_track_start s" "out_file s' = out_file s"
    "track_names_file s' = track_names_file s" "sink s' = sink s"
    "leadin_buf s' = leadin_buf s" "leadin_buf_end s' = leadin_buf_end s"
    "numchannels s' = numchannels s" "samplerate s' = samplerate s"
    "rms_window_len s' = rms_window_len s" "min_signal_len s' = min_signal_len s"
    "min_silence_len s' = min_silence_len s" "min_track_len s' = min_track_len s"
    "ra_frame_cnt s' = ra_frame_cnt s" "n_x_nf_sq s' = n_x_nf_sq s"
    "cuts_file s' = cuts_file s" "leadin_buf_edge s' = leadin_buf_edge s"
    "main_buf_edge s' = main_buf_edge s" "sq_buf_edge s' = sq_buf_edge s"
  using assms by (simp_all add: seg_part_def)

lemma leadin_buf_add_dsp_part: "dsp_part (leadin_buf_add opts s) = dsp_part s"
  by (simp add: dsp_part_def leadin_buf_add_def)

lemma leadin_buf_commit_dsp_part: "dsp_part (leadin_buf_commit opts s) = dsp_part s"
  by (simp add: dsp_part_def leadin_buf_commit_def Let_def)

lemma leadin_buf_purge_dsp_part: "dsp_part (leadin_buf_purge opts s) = dsp_part s"
  by (simp add: dsp_part_def leadin_buf_purge_def)

lemma fetch_next_track_name_dsp_part: "dsp_part (fetch_next_track_name s) = dsp_part s"
  by (simp add: dsp_part_def fetch_next_track_name_def split: option.split list.split)

lemmas leadin_buf_add_dsp [simp] = dsp_sel [OF leadin_buf_add_dsp_part]
lemmas leadin_buf_commit_dsp [simp] = dsp_sel [OF leadin_buf_commit_dsp_part]
lemmas leadin_buf_purge_dsp [simp] = dsp_sel [OF leadin_buf_purge_dsp_part]
lemmas fetch_next_track_name_dsp [simp] = dsp_sel [OF fetch_next_track_name_dsp_part]

lemma create_new_out_file_dsp_part: "dsp_part (create_new_out_file opts s) = dsp_part s"
  by (simp add: dsp_part_def create_new_out_file_def Let_def)

lemma close_out_file_dsp_part: "dsp_part (close_out_file s) = dsp_part s"
  by (simp add: dsp_part_def close_out_file_def)

lemma print_track_cut_dsp_part: "dsp_part (print_track_cut s) = dsp_part s"
  by (simp add: dsp_part_def print_track_cut_def)

lemma commit_current_frame_dsp_part: "dsp_part (commit_current_frame opts s) = dsp_part s"
  by (simp add: dsp_part_def commit_current_frame_def)

lemmas create_new_out_file_dsp [simp] = dsp_sel [OF create_new_out_file_dsp_part]
lemmas close_out_file_dsp [simp] = dsp_sel [OF close_out_file_dsp_part]
lemmas print_track_cut_dsp [simp] = dsp_sel [OF print_track_cut_dsp_part]
lemmas commit_current_frame_dsp [simp] = dsp_sel [OF commit_current_frame_dsp_part]

lemma force_end_of_track_dsp_part: "dsp_part (force_end_of_track opts s) = dsp_part s"
  by (simp add: dsp_part_def force_end_of_track_def Let_def split: option.split)

lemmas force_end_of_track_dsp [simp] = dsp_sel [OF force_end_of_track_dsp_part]

lemma update_context_dsp_part: "dsp_part (update_context opts s) = dsp_part s"
  by (simp add: dsp_part_def update_context_def Let_def split: cut_context_t.split)

lemmas update_context_dsp [simp] = dsp_sel [OF update_context_dsp_part]

lemma advance_buf_ptrs_seg_part: "seg_part (advance_buf_ptrs s) = seg_part s"
  by (simp add: seg_part_def advance_buf_ptrs_def Let_def)

lemma filter_channel_seg_part: "seg_part (filter_channel opts c s) = seg_part s"
  by (simp add: seg_part_def filter_channel_def Let_def)

lemma fold_filter_channel_seg_part: "seg_part (fold (filter_channel opts) cs s) = seg_part s"
  by (induction cs arbitrary: s) (simp_all add: filter_channel_seg_part)

lemma filter_new_frame_seg_part: "seg_part (filter_new_frame opts s) = seg_part s"
  using fold_filter_channel_seg_part [of opts "[0..<numchannels s]" s]
  by (simp add: seg_part_def filter_new_frame_def Let_def)

lemmas advance_buf_ptrs_seg [simp] = seg_sel [OF advance_buf_ptrs_seg_part]
lemmas filter_new_frame_seg [simp] = seg_sel [OF filter_new_frame_seg_part]

lemma fetch_source_seg_part: "fetch_source s = Inr (eof, s') \<Longrightarrow> seg_part s' = seg_part s"
  by (auto simp: seg_part_def fetch_source_def Let_def split: if_splits option.splits prod.splits)

lemma fetch_next_frame_seg_part:
  "fetch_next_frame opts s = Inr (cont, s') \<Longrightarrow> seg_part s' = seg_part s"
  by (auto simp: fetch_next_frame_def Let_def seg_part_def
      split: sum.splits prod.splits dest!: fetch_source_seg_part)

lemmas fetch_next_frame_seg = seg_sel [OF fetch_next_frame_seg_part]

text \<open>
  Every call of \<^verbatim>\<open>fetch_next_frame\<close> that returns true has lowered
  \<open>frames_remaining\<close>, so the loop of \<^verbatim>\<open>cutter_loop\<close> ends.
\<close>

lemma fetch_source_remaining:
  "fetch_source s = Inr (False, s') \<Longrightarrow> nat (frames_remaining s') < nat (frames_remaining s)"
  by (auto simp: fetch_source_def Let_def split: if_splits option.splits prod.splits)

lemma advance_buf_ptrs_remaining [simp]:
  "frames_remaining (advance_buf_ptrs s) = frames_remaining s"
  by (simp add: advance_buf_ptrs_def Let_def)

lemma filter_channel_remaining [simp]:
  "frames_remaining (filter_channel opts c s) = frames_remaining s"
  by (simp add: filter_channel_def Let_def)

lemma fold_filter_channel_remaining [simp]:
  "frames_remaining (fold (filter_channel opts) cs s) = frames_remaining s"
  by (induction cs arbitrary: s) simp_all

lemma filter_new_frame_remaining [simp]:
  "frames_remaining (filter_new_frame opts s) = frames_remaining s"
  by (simp add: filter_new_frame_def Let_def)

lemma fetch_next_frame_remaining:
  "fetch_next_frame opts s = Inr (True, s')
   \<Longrightarrow> nat (frames_remaining s') < nat (frames_remaining s)"
  by (auto simp: fetch_next_frame_def Let_def split: sum.splits prod.splits
      dest: fetch_source_remaining)

text \<open>
  \<^verbatim>\<open>cutter_loop\<close>: \<open>cutter_do\<close> is its \<^verbatim>\<open>do ... while\<close> loop, and \<open>cutter_loop\<close> adds
  the forced end of the track when no frames remain. \<open>main_cutting\<close> is \<^verbatim>\<open>main\<close> after
  the options have been parsed, for the cutting task.
\<close>

function cutter_do :: "options \<Rightarrow> state \<Rightarrow> error + state" where
  "cutter_do opts s =
     (case fetch_next_frame opts (update_context opts s) of
        Inl e \<Rightarrow> Inl e
      | Inr (cont, s') \<Rightarrow>
          if cont \<and> cur_track_num s' \<le> track_num_end opts then cutter_do opts s'
          else Inr s')"
  by pat_completeness auto
termination
proof (relation "measure (\<lambda>(opts, s). nat (frames_remaining s))")
  show "wf (measure (\<lambda>(opts, s). nat (frames_remaining s)))"
    by simp
next
  fix opts :: options and s x2 cont s'
  assume "fetch_next_frame opts (update_context opts s) = Inr x2"
    and "(cont, s') = x2"
    and "cont \<and> cur_track_num s' \<le> track_num_end opts"
  then have "fetch_next_frame opts (update_context opts s) = Inr (True, s')"
    by auto
  from fetch_next_frame_remaining [OF this]
  show "((opts, s'), (opts, s)) \<in> measure (\<lambda>(opts, s). nat (frames_remaining s))"
    by simp
qed

declare cutter_do.simps [simp del]

definition cutter_loop :: "options \<Rightarrow> state \<Rightarrow> error + state" where
  "cutter_loop opts s =
     (case cutter_do opts s of
        Inl e \<Rightarrow> Inl e
      | Inr s' \<Rightarrow> Inr (if frames_remaining s' = 0 then force_end_of_track opts s' else s'))"

definition main_cutting :: "options \<Rightarrow> sndfile \<Rightarrow> string list option \<Rightarrow> error + state" where
  "main_cutting opts sf names =
     (case init_state opts sf names of
        Inl e \<Rightarrow> Inl e
      | Inr s \<Rightarrow> cutter_loop opts s)"

text \<open>
  \<open>cutter_ticks opts s0 s\<close>: the loop started in \<open>s0\<close> reaches the top of its body in
  state \<open>s\<close>. A tick is one pass through the body, \<^verbatim>\<open>update_context\<close> on \<open>s\<close>.
\<close>

inductive cutter_ticks :: "options \<Rightarrow> state \<Rightarrow> state \<Rightarrow> bool" for opts s0 where
  first_tick: "cutter_ticks opts s0 s0"
| next_tick: "cutter_ticks opts s0 s
    \<Longrightarrow> fetch_next_frame opts (update_context opts s) = Inr (True, s')
    \<Longrightarrow> cur_track_num s' \<le> track_num_end opts
    \<Longrightarrow> cutter_ticks opts s0 s'"

section \<open>Example inputs\<close>

text \<open>
  A state in \<open>CCTX_TRACK_ENDING\<close> with the dwell counter at zero, in extraction mode: one
  channel, a window of one frame holding the quiet sample \<open>1/16\<close>, whose square is
  below the threshold \<open>1/100\<close>, and an open track file.
\<close>

definition ex_extract_opts :: options where
  "ex_extract_opts = init_options\<lparr>cut_point_action := CPA_EXTRACT_TRACK\<rparr>"

definition ex_ending :: state where
  "ex_ending = zero_state\<lparr>
     out_file := True, cut_context := CCTX_TRACK_ENDING, time_to_live := 0,
     cur_frame_pos := 30, cur_track_num := 1, numchannels := 1, samplerate := 20,
     rms_window_len := 1, min_signal_len := 2, min_silence_len := 1, min_track_len := 20,
     ra_frame_cnt := 1, n_x_nf_sq := 1 / 100,
     x_sq_ttl := (replicate MAX_CHANNELS 0)[0 := 1 / 256],
     sq_buf := [1 / 256], main_buf := [1 / 16], sq_buf_edge := 1, main_buf_edge := 1\<rparr>"

text \<open>
  Three recordings: two full-scale mono frames at 20 Hz (a window of one frame), two
  seconds of stereo at 48000 Hz (a window of 2400 frames) and an empty mono recording
  at 44100 Hz (a window of 2205 frames). \<open>ex_opts\<close> sets dwell times of 50 ms, a
  minimum track length of one second and a noise floor of -20 dBFS.
\<close>

definition ex_opts :: options where
  "ex_opts = init_options\<lparr>min_silence_period := 50, min_signal_period := 50,
     min_track_length := 1, noise_floor_dbfs := - 20\<rparr>"

definition ex_file :: sndfile where
  "ex_file = \<lparr>sf_samplerate = 20, sf_channels = 1, sf_items = [Frame [1], Frame [1]]\<rparr>"

definition ex_file_48k :: sndfile where
  "ex_file_48k = \<lparr>sf_samplerate = 48000, sf_channels = 2,
     sf_items = replicate 96000 (Frame [1 / 2, 1 / 2])\<rparr>"

definition ex_file_44k :: sndfile where
  "ex_file_44k = \<lparr>sf_samplerate = 44100, sf_channels = 1, sf_items = []\<rparr>"

definition ex_start :: state where
  "ex_start = projr (init_state ex_opts ex_file None)"

definition ex_start_48k :: state where
  "ex_start_48k = projr (init_state init_options ex_file_48k None)"

definition ex_start_44k :: state where
  "ex_start_44k = projr (init_state init_options ex_file_44k None)"

section \<open>Frame indices\<close>

text \<open>
  \<open>cur_frame_pos\<close> is the index in the recording of the frame under the centre
  pointers: it starts at the start of the range, where the centre holds the first
  frame read, and moves by one with the pointers. \<open>frames_proc_ttl\<close> counts the frames
  admitted to the head of the ring, so in a run started in \<open>s0\<close> the newest admitted
  frame has the index \<open>head_frame_index s0 s\<close>.
\<close>

definition head_frame_index :: "state \<Rightarrow> state \<Rightarrow> int" where
  "head_frame_index s0 s = cur_frame_pos s0 + frames_proc_ttl s - 1"

section \<open>Successive calls of the frame source\<close>

text \<open>
  \<open>source_frame s\<close> is the frame that the call of \<^verbatim>\<open>fetch_next_frame\<close> in state \<open>s\<close>
  puts at the tail of the main ring, before the filter touches it. \<open>fetch_many opts n s\<close>
  calls \<^verbatim>\<open>fetch_next_frame\<close> \<open>n\<close> times in a row and lists, for every call, its return
  value and the frame it delivered.
\<close>

definition source_frame :: "state \<Rightarrow> real list" where
  "source_frame s =
     (case fetch_source s of
        Inl e \<Rightarrow> []
      | Inr (eof, s1) \<Rightarrow> load_frame (main_buf s1) (main_buf_tail s1) (numchannels s1))"

fun fetch_many :: "options \<Rightarrow> nat \<Rightarrow> state \<Rightarrow> error + ((bool \<times> real list) list \<times> state)" where
  "fetch_many opts 0 s = Inr ([], s)"
| "fetch_many opts (Suc n) s =
     (case fetch_next_frame opts s of
        Inl e \<Rightarrow> Inl e
      | Inr (cont, s') \<Rightarrow>
          (case fetch_many opts n s' of
             Inl e \<Rightarrow> Inl e
           | Inr (rs, s'') \<Rightarrow> Inr ((cont, source_frame s) # rs, s'')))"

section \<open>Track ends\<close>

text \<open>
  A track end reaches the outside as a row of the cut sheet or as the closing of a
  track file; \<open>track_ends\<close> counts them in the list of events. \<open>ex_final\<close> is the
  state in which the run on \<open>ex_file\<close> with \<open>ex_opts\<close> finishes.
\<close>

fun is_track_end :: "event \<Rightarrow> bool" where
  "is_track_end (CutRow n a b nm) = True"
| "is_track_end OutClose = True"
| "is_track_end e = False"

definition track_ends :: "event list \<Rightarrow> nat" where
  "track_ends es = length (filter is_track_end es)"

definition ex_final :: state where
  "ex_final = projr (main_cutting ex_opts ex_file None)"

definition ex_opts_extract :: options where
  "ex_opts_extract = ex_opts\<lparr>cut_point_action := CPA_EXTRACT_TRACK\<rparr>"

definition ex_opts_short :: options where
  "ex_opts_short = ex_opts\<lparr>cut_point_action := CPA_EXTRACT_TRACK, min_signal_period := 49\<rparr>"

definition ex_start_extract :: state where
  "ex_start_extract = projr (init_state ex_opts_extract ex_file None)"

definition ex_start_short :: state where
  "ex_start_short = projr (init_state ex_opts_short ex_file None)"

definition ex_final_extract :: state where
  "ex_final_extract = projr (cutter_loop ex_opts_extract ex_start_extract)"

definition ex_fetched :: "bool \<times> state" where
  "ex_fetched = projr (fetch_next_frame ex_opts (update_context ex_opts ex_start))"

text \<open>
  A longer recording at 20 Hz: two loud frames followed by one second of silence, and
  the state the loop of the cutter leaves it in.
\<close>

definition ex_file_long :: sndfile where
  "ex_file_long = \<lparr>sf_samplerate = 20, sf_channels = 1, sf_items =
     [Frame [1], Frame [1], Frame [0], Frame [0], Frame [0], Frame [0], Frame [0], Frame [0], Frame [0], Frame [0], Frame [0], Frame [0], Frame [0], Frame [0], Frame [0], Frame [0], Frame [0], Frame [0], Frame [0], Frame [0], Frame [0], Frame [0]]\<rparr>"

definition ex_alpha :: real where
  "ex_alpha = HIGH_PASS_TAU / (HIGH_PASS_TAU + 1 / 20)"

definition ex_start_long :: state where
  "ex_start_long = projr (init_state ex_opts ex_file_long None)"

definition ex_loop_long :: state where
  "ex_loop_long = projr (cutter_do ex_opts ex_start_long)"

section \<open>Range arguments: results\<close>

lemma scan_lld_5: "scan_lld ''5'' = Some (5, [])"
  by (simp add: scan_lld_def scan_unsigned_def isspace_def isdigit_def digits_val_def
      digit_val_def)

lemma scan_lld_2: "scan_lld ''2'' = Some (2, [])"
  by (simp add: scan_lld_def scan_unsigned_def isspace_def isdigit_def digits_val_def
      digit_val_def)

lemma parse_int_boundary_5: "parse_int_boundary ''5'' d = Inr 5"
  by (simp add: parse_int_boundary_def scan_lld_5)

lemma parse_int_boundary_2: "parse_int_boundary ''2'' d = Inr 2"
  by (simp add: parse_int_boundary_def scan_lld_2)

lemma split_5_2:
  "one_hyphen ''5-2''" "before_hyphen ''5-2'' = ''5''" "after_hyphen ''5-2'' = ''2''"
  by (simp_all add: one_hyphen_def before_hyphen_def after_hyphen_def)

text \<open>
  The sibling \<^verbatim>\<open>parse_frame_range\<close> rejects a reversed range: it compares the two
  fields it has just stored.
\<close>

lemma parse_frame_range_reversed:
  "parse_frame_range ''5-2'' init_options = Inl RangeEndBeforeStart"
  by (simp add: parse_frame_range_def split_5_2 parse_int_boundary_5 parse_int_boundary_2)

text \<open>
  Claim C4. A track range whose end is before its start should be rejected at startup.
  \<^verbatim>\<open>parse_track_range\<close> stores the two track numbers and then compares
  \<open>end_frame_idx\<close> with \<open>start_frame_idx\<close>, the fields of the frame range, so with the
  default options \<^verbatim>\<open>--track-range=5-2\<close> is accepted: parsing succeeds with
  \<open>track_num_start = 5\<close> and \<open>track_num_end = 2\<close>.
\<close>

theorem parse_track_range_reversed_accepted:
  "parse_track_range ''5-2'' init_options
     = Inr (init_options\<lparr>track_num_start := 5, track_num_end := 2\<rparr>)"
  by (simp add: parse_track_range_def split_5_2 parse_int_boundary_5 parse_int_boundary_2
      to_int32_def init_options_def SF_COUNT_MAX_def)

section \<open>Buffers\<close>

lemma fold_update_length [simp]:
  "length (fold (\<lambda>c b. b[p + c := f ! c]) cs buf) = length buf"
  by (induction cs arbitrary: buf) simp_all

lemma length_store_frame [simp]: "length (store_frame buf p f) = length buf"
  by (simp add: store_frame_def)

lemma fold_update_nth:
  "fold (\<lambda>c b. b[p + c := f ! c]) [0..<n] buf ! i
     = (if p \<le> i \<and> i < p + n \<and> i < length buf then f ! (i - p) else buf ! i)"
proof (induction n)
  case 0
  show ?case by auto
next
  case (Suc n)
  show ?case
  proof (cases "i = p + n")
    case True
    then show ?thesis using Suc
      by (cases "p + n < length buf") (simp_all add: list_update_beyond)
  next
    case False
    then show ?thesis using Suc by (auto simp: nth_list_update less_Suc_eq)
  qed
qed

lemma nth_store_frame:
  "store_frame buf p f ! i
     = (if p \<le> i \<and> i < p + length f \<and> i < length buf then f ! (i - p) else buf ! i)"
  by (simp add: store_frame_def fold_update_nth)

lemma length_load_frame [simp]: "length (load_frame buf p n) = n"
  by (simp add: load_frame_def)

lemma nth_load_frame [simp]: "c < n \<Longrightarrow> load_frame buf p n ! c = buf ! (p + c)"
  by (simp add: load_frame_def)

lemma load_store_same:
  "p + length f \<le> length buf \<Longrightarrow> load_frame (store_frame buf p f) p (length f) = f"
  by (rule nth_equalityI) (simp_all add: nth_store_frame)


section \<open>Ring sums\<close>

lemma slot_index_eq:
  fixes C :: nat
  assumes "c < C" "c' < C"
  shows "k * C + c' = h * C + c \<longleftrightarrow> k = h \<and> c' = c"
proof
  assume eq: "k * C + c' = h * C + c"
  have "(k * C + c') div C = k" "(h * C + c) div C = h"
    using assms by simp_all
  with eq have "k = h" by metis
  with eq show "k = h \<and> c' = c" by simp
qed simp

lemma ring_sum_update:
  fixes sq :: "real list"
  assumes "h < W" "c < C" "c' < C" "length sq = W * C"
  shows "(\<Sum>k<W. sq[h * C + c := v] ! (k * C + c'))
       = (\<Sum>k<W. sq ! (k * C + c')) + (if c' = c then v - sq ! (h * C + c) else 0)"
proof -
  have lt: "h * C + c < length sq"
  proof -
    have "h * C + c < h * C + C" using assms by simp
    also have "\<dots> = (h + 1) * C" by simp
    also have "\<dots> \<le> W * C" using assms by (intro mult_le_mono1) simp
    finally show ?thesis using assms by simp
  qed
  have nth: "sq[h * C + c := v] ! (k * C + c')
      = (if k = h \<and> c' = c then v else sq ! (k * C + c'))" for k
    using lt assms slot_index_eq [of c C c' k h]
    by (simp add: nth_list_update eq_commute)
  show ?thesis
  proof (cases "c' = c")
    case False
    then show ?thesis by (simp add: nth)
  next
    case True
    have "(\<Sum>k<W. sq[h * C + c := v] ! (k * C + c'))
        = (\<Sum>k<W. if k = h \<and> c' = c then v else sq ! (k * C + c'))"
      by (simp only: nth)
    also have "\<dots> = (\<Sum>k<W. if k = h then v else sq ! (k * C + c))"
      unfolding True by simp
    also have "\<dots> = v + (\<Sum>k\<in>{..<W} - {h}. sq ! (k * C + c))"
      using assms by (simp add: sum.remove [of _ h])
    also have "(\<Sum>k\<in>{..<W} - {h}. sq ! (k * C + c))
        = (\<Sum>k<W. sq ! (k * C + c)) - sq ! (h * C + c)"
      using assms by (simp add: sum.remove [of _ h])
    finally show ?thesis using True by simp
  qed
qed

section \<open>The filter and the running sums\<close>

definition keep_part where
  "keep_part s =
     (in_file s, in_eof s, frames_remaining s, frames_read_ttl s, frames_proc_ttl s,
      cur_frame_pos s, sq_buf_head s, sq_buf_tail s, sq_buf_cen s, main_buf_head s,
      main_buf_tail s, main_buf_cen s, length (main_buf s), length (sq_buf s),
      length (x_sq_ttl s))"

lemma keep_sel:
  assumes "keep_part s' = keep_part s"
  shows "in_file s' = in_file s" "in_eof s' = in_eof s"
    "frames_remaining s' = frames_remaining s" "frames_read_ttl s' = frames_read_ttl s"
    "frames_proc_ttl s' = frames_proc_ttl s" "cur_frame_pos s' = cur_frame_pos s"
    "sq_buf_head s' = sq_buf_head s" "sq_buf_tail s' = sq_buf_tail s"
    "sq_buf_cen s' = sq_buf_cen s" "main_buf_head s' = main_buf_head s"
    "main_buf_tail s' = main_buf_tail s" "main_buf_cen s' = main_buf_cen s"
    "length (main_buf s') = length (main_buf s)" "length (sq_buf s') = length (sq_buf s)"
    "length (x_sq_ttl s') = length (x_sq_ttl s)"
  using assms by (simp_all add: keep_part_def)

lemma filter_channel_keep_part: "keep_part (filter_channel opts c s) = keep_part s"
  by (simp add: keep_part_def filter_channel_def Let_def)

lemma fold_filter_channel_keep_part:
  "keep_part (fold (filter_channel opts) cs s) = keep_part s"
  by (induction cs arbitrary: s) (simp_all add: filter_channel_keep_part)

lemmas filter_channel_keep [simp] = keep_sel [OF filter_channel_keep_part]
lemmas filter_channel_seg [simp] = seg_sel [OF filter_channel_seg_part]
lemmas fold_filter_channel_keep [simp] = keep_sel [OF fold_filter_channel_keep_part]
lemmas fold_filter_channel_seg [simp] = seg_sel [OF fold_filter_channel_seg_part]

lemma filter_new_frame_keep [simp]:
  "in_file (filter_new_frame opts s) = in_file s"
  "in_eof (filter_new_frame opts s) = in_eof s"
  "frames_read_ttl (filter_new_frame opts s) = frames_read_ttl s"
  "frames_proc_ttl (filter_new_frame opts s) = frames_proc_ttl s + 1"
  "cur_frame_pos (filter_new_frame opts s) = cur_frame_pos s"
  "sq_buf_tail (filter_new_frame opts s) = sq_buf_tail s"
  "sq_buf_cen (filter_new_frame opts s) = sq_buf_cen s"
  "main_buf_tail (filter_new_frame opts s) = main_buf_tail s"
  "main_buf_cen (filter_new_frame opts s) = main_buf_cen s"
  "length (main_buf (filter_new_frame opts s)) = length (main_buf s)"
  "length (sq_buf (filter_new_frame opts s)) = length (sq_buf s)"
  "length (x_sq_ttl (filter_new_frame opts s)) = length (x_sq_ttl s)"
  by (simp_all add: filter_new_frame_def Let_def)

text \<open>
  One channel of the filter: the square of the new head sample replaces the ring entry
  at the head, and the running sum loses the old entry and gains the new one.
\<close>

lemma filter_channel_sq_buf:
  "sq_buf (filter_channel opts c s)
     = (sq_buf s)[sq_buf_head s + c :=
         main_buf (filter_channel opts c s) ! (main_buf_head s + c)
         * main_buf (filter_channel opts c s) ! (main_buf_head s + c)]"
  by (simp add: filter_channel_def Let_def)

lemma filter_channel_x_sq_ttl:
  assumes "c < length (x_sq_ttl s)" "sq_buf_head s + c < length (sq_buf s)"
  shows "x_sq_ttl (filter_channel opts c s)
     = (x_sq_ttl s)[c := x_sq_ttl s ! c - sq_buf s ! (sq_buf_head s + c)
         + main_buf (filter_channel opts c s) ! (main_buf_head s + c)
           * main_buf (filter_channel opts c s) ! (main_buf_head s + c)]"
  using assms by (simp add: filter_channel_def Let_def)

definition sq_inv :: "state \<Rightarrow> bool" where
  "sq_inv s \<longleftrightarrow>
     (\<forall>c<numchannels s.
        x_sq_ttl s ! c = (\<Sum>k<rms_window_len s. sq_buf s ! (k * numchannels s + c)))"

lemma filter_channel_sq_inv:
  assumes inv: "sq_inv s" and c: "c < numchannels s"
    and len: "numchannels s \<le> length (x_sq_ttl s)"
      "length (sq_buf s) = rms_window_len s * numchannels s"
    and head: "sq_buf_head s = h * numchannels s" "h < rms_window_len s"
  shows "sq_inv (filter_channel opts c s)"
proof -
  define v where "v = main_buf (filter_channel opts c s) ! (main_buf_head s + c)
         * main_buf (filter_channel opts c s) ! (main_buf_head s + c)"
  define C where "C = numchannels s"
  define W where "W = rms_window_len s"
  have lt: "h * C + c < length (sq_buf s)"
  proof -
    have "h * C + c < (h + 1) * C" using c by (simp add: C_def)
    also have "\<dots> \<le> W * C" using head by (intro mult_le_mono1) (simp add: W_def)
    finally show ?thesis using len by (simp add: C_def W_def)
  qed
  have sq: "sq_buf (filter_channel opts c s) = (sq_buf s)[h * C + c := v]"
    using filter_channel_sq_buf [of opts c s] head by (simp add: v_def C_def)
  have x: "x_sq_ttl (filter_channel opts c s)
      = (x_sq_ttl s)[c := x_sq_ttl s ! c - sq_buf s ! (h * C + c) + v]"
    using filter_channel_x_sq_ttl [of c s opts] c len lt head by (simp add: v_def C_def)
  have nc: "numchannels (filter_channel opts c s) = C"
    and rw: "rms_window_len (filter_channel opts c s) = W"
    by (simp_all add: C_def W_def)
  have inv': "x_sq_ttl s ! c' = (\<Sum>k<W. sq_buf s ! (k * C + c'))" if "c' < C" for c'
    using inv that by (simp add: sq_inv_def C_def W_def)
  have upd: "(\<Sum>k<W. (sq_buf s)[h * C + c := v] ! (k * C + c'))
      = (\<Sum>k<W. sq_buf s ! (k * C + c')) + (if c' = c then v - sq_buf s ! (h * C + c) else 0)"
    if "c' < C" for c'
    using ring_sum_update [of h W c C c' "sq_buf s" v] head c that len
    by (simp add: C_def W_def)
  have c_len: "c < length (x_sq_ttl s)" and cC: "c < C"
    using c len by (simp_all add: C_def)
  show ?thesis
    unfolding sq_inv_def nc rw sq x
  proof (intro allI impI)
    fix c' assume c': "c' < C"
    show "(x_sq_ttl s)[c := x_sq_ttl s ! c - sq_buf s ! (h * C + c) + v] ! c'
        = (\<Sum>k<W. (sq_buf s)[h * C + c := v] ! (k * C + c'))"
    proof (cases "c' = c")
      case True
      show ?thesis
        unfolding True using upd [OF cC] inv' [OF cC] c_len by simp
    next
      case False
      then show ?thesis
        using upd [OF c'] inv' [OF c'] by simp
    qed
  qed
qed

lemma fold_filter_channel_sq_inv:
  assumes "sq_inv s" "\<forall>c\<in>set cs. c < numchannels s"
    "numchannels s \<le> length (x_sq_ttl s)"
    "length (sq_buf s) = rms_window_len s * numchannels s"
    "sq_buf_head s = h * numchannels s" "h < rms_window_len s"
  shows "sq_inv (fold (filter_channel opts) cs s)"
  using assms
proof (induction cs arbitrary: s)
  case Nil
  then show ?case by simp
next
  case (Cons c cs)
  have "sq_inv (filter_channel opts c s)"
    using Cons.prems by (intro filter_channel_sq_inv [where h = h]) simp_all
  then show ?case
    using Cons.prems by (simp, intro Cons.IH) simp_all
qed

lemma filter_new_frame_sq_inv:
  assumes "sq_inv s" "numchannels s \<le> length (x_sq_ttl s)"
    "length (sq_buf s) = rms_window_len s * numchannels s"
    "sq_buf_head s = h * numchannels s" "h < rms_window_len s"
  shows "sq_inv (filter_new_frame opts s)"
proof -
  have "sq_inv (fold (filter_channel opts) [0..<numchannels s] s)"
    using assms by (intro fold_filter_channel_sq_inv [where h = h]) simp_all
  then show ?thesis
    by (simp add: filter_new_frame_def Let_def sq_inv_def)
qed

section \<open>The ring pointers\<close>

definition ticks_done :: "state \<Rightarrow> nat" where
  "ticks_done s = nat (frames_proc_ttl s - ra_frame_cnt s)"

definition ring_inv :: "state \<Rightarrow> bool" where
  "ring_inv s \<longleftrightarrow>
     0 < rms_window_len s \<and> 0 < numchannels s \<and> numchannels s \<le> length (x_sq_ttl s) \<and>
     main_buf_edge s = rms_window_len s * numchannels s \<and>
     sq_buf_edge s = rms_window_len s * numchannels s \<and>
     length (main_buf s) = rms_window_len s * numchannels s \<and>
     length (sq_buf s) = rms_window_len s * numchannels s \<and>
     sq_buf_head s = main_buf_head s \<and> sq_buf_tail s = main_buf_tail s \<and>
     sq_buf_cen s = main_buf_cen s \<and>
     ra_frame_cnt s = int (rms_window_len s - rms_window_len s div 2) \<and>
     ra_frame_cnt s \<le> frames_proc_ttl s \<and>
     main_buf_tail s = (ticks_done s mod rms_window_len s) * numchannels s \<and>
     main_buf_head s
       = ((ticks_done s + rms_window_len s - 1) mod rms_window_len s) * numchannels s \<and>
     main_buf_cen s
       = ((ticks_done s + rms_window_len s div 2) mod rms_window_len s) * numchannels s"

definition src_keep where
  "src_keep s =
     (x_sq_ttl s, sq_buf s, length (main_buf s), sq_buf_head s, sq_buf_tail s, sq_buf_cen s,
      main_buf_head s, main_buf_tail s, main_buf_cen s, cur_frame_pos s, frames_proc_ttl s)"

lemma src_sel:
  assumes "src_keep s' = src_keep s"
  shows "x_sq_ttl s' = x_sq_ttl s" "sq_buf s' = sq_buf s"
    "length (main_buf s') = length (main_buf s)"
    "sq_buf_head s' = sq_buf_head s" "sq_buf_tail s' = sq_buf_tail s"
    "sq_buf_cen s' = sq_buf_cen s" "main_buf_head s' = main_buf_head s"
    "main_buf_tail s' = main_buf_tail s" "main_buf_cen s' = main_buf_cen s"
    "cur_frame_pos s' = cur_frame_pos s" "frames_proc_ttl s' = frames_proc_ttl s"
  using assms by (simp_all add: src_keep_def)

lemma fetch_source_src_keep: "fetch_source s = Inr (eof, s') \<Longrightarrow> src_keep s' = src_keep s"
  by (auto simp: src_keep_def fetch_source_def Let_def split: if_splits option.splits prod.splits)

lemmas fetch_source_src = src_sel [OF fetch_source_src_keep]
lemmas fetch_source_seg = seg_sel [OF fetch_source_seg_part]

lemma advance_buf_ptrs_keep [simp]:
  "main_buf (advance_buf_ptrs s) = main_buf s" "sq_buf (advance_buf_ptrs s) = sq_buf s"
  "x_sq_ttl (advance_buf_ptrs s) = x_sq_ttl s"
  "cur_frame_pos (advance_buf_ptrs s) = cur_frame_pos s"
  "frames_proc_ttl (advance_buf_ptrs s) = frames_proc_ttl s"
  "frames_read_ttl (advance_buf_ptrs s) = frames_read_ttl s"
  "in_file (advance_buf_ptrs s) = in_file s" "in_eof (advance_buf_ptrs s) = in_eof s"
  by (simp_all add: advance_buf_ptrs_def Let_def)

lemma wrap_slot:
  fixes u W C :: nat
  assumes "u < W" "0 < C"
  shows "(if W * C \<le> u * C + C then 0 else u * C + C) = ((u + 1) mod W) * C"
proof (cases "u + 1 = W")
  case True
  then show ?thesis by auto
next
  case False
  with assms have lt: "u + 1 < W" by simp
  then have "(u + 1) * C < W * C" using assms by (intro mult_less_mono1) simp_all
  then have "\<not> W * C \<le> u * C + C" by simp
  then show ?thesis using lt by simp
qed

lemma advance_buf_ptrs_ptrs:
  assumes "main_buf_tail s = t * numchannels s" "t < rms_window_len s"
    "main_buf_cen s = u * numchannels s" "u < rms_window_len s"
    "main_buf_edge s = rms_window_len s * numchannels s" "0 < numchannels s"
    "sq_buf_edge s = main_buf_edge s" "sq_buf_tail s = main_buf_tail s"
    "sq_buf_cen s = main_buf_cen s"
  shows "main_buf_head (advance_buf_ptrs s) = t * numchannels s"
    "sq_buf_head (advance_buf_ptrs s) = t * numchannels s"
    "main_buf_tail (advance_buf_ptrs s) = ((t + 1) mod rms_window_len s) * numchannels s"
    "sq_buf_tail (advance_buf_ptrs s) = ((t + 1) mod rms_window_len s) * numchannels s"
    "main_buf_cen (advance_buf_ptrs s) = ((u + 1) mod rms_window_len s) * numchannels s"
    "sq_buf_cen (advance_buf_ptrs s) = ((u + 1) mod rms_window_len s) * numchannels s"
  using assms wrap_slot [of t "rms_window_len s" "numchannels s"]
    wrap_slot [of u "rms_window_len s" "numchannels s"]
  by (simp_all add: advance_buf_ptrs_def Let_def)

lemma fetch_next_frame_ring_inv:
  assumes "fetch_next_frame opts s = Inr (b, s')" "ring_inv s"
  shows "ring_inv s'"
proof -
  from assms(1) obtain eof s1 where src: "fetch_source s = Inr (eof, s1)"
    and s': "s' = filter_new_frame opts (advance_buf_ptrs (s1\<lparr>cur_frame_pos := cur_frame_pos s1 + 1\<rparr>))"
    by (auto simp: fetch_next_frame_def Let_def split: sum.splits prod.splits)
  define W where "W = rms_window_len s"
  define C where "C = numchannels s"
  define j where "j = ticks_done s"
  define s2 where "s2 = s1\<lparr>cur_frame_pos := cur_frame_pos s1 + 1\<rparr>"
  note k1 = fetch_source_src [OF src] fetch_source_seg [OF src]
  have W: "0 < W" and C: "0 < C" using assms(2) by (simp_all add: ring_inv_def W_def C_def)
  have ptr: "main_buf_tail s2 = (j mod W) * numchannels s2" "j mod W < rms_window_len s2"
    "main_buf_cen s2 = ((j + W div 2) mod W) * numchannels s2"
    "(j + W div 2) mod W < rms_window_len s2"
    "main_buf_edge s2 = rms_window_len s2 * numchannels s2" "0 < numchannels s2"
    "sq_buf_edge s2 = main_buf_edge s2" "sq_buf_tail s2 = main_buf_tail s2"
    "sq_buf_cen s2 = main_buf_cen s2"
    using assms(2) W by (simp_all add: ring_inv_def s2_def k1 W_def C_def j_def)
  note adv = advance_buf_ptrs_ptrs [OF ptr]
  have le: "ra_frame_cnt s \<le> frames_proc_ttl s"
    using assms(2) by (simp add: ring_inv_def)
  have fp: "frames_proc_ttl s' = frames_proc_ttl s + 1"
    and "ra_frame_cnt s' = ra_frame_cnt s"
    by (simp_all add: s' k1)
  then have j': "ticks_done s' = j + 1"
    using le by (simp add: ticks_done_def j_def)
  have m1: "(j mod W + 1) mod W = (j + 1) mod W"
    by (simp add: mod_Suc_eq)
  have m2: "((j + W div 2) mod W + 1) mod W = (j + 1 + W div 2) mod W"
    by (metis Suc_eq_plus1 add_Suc mod_Suc_eq)
  have m3: "(j + 1 + W - 1) mod W = j mod W"
    by simp
  have cst: "rms_window_len s' = W" "numchannels s' = C"
    "main_buf_edge s' = main_buf_edge s" "sq_buf_edge s' = sq_buf_edge s"
    "length (main_buf s') = length (main_buf s)" "length (sq_buf s') = length (sq_buf s)"
    "length (x_sq_ttl s') = length (x_sq_ttl s)" "ra_frame_cnt s' = ra_frame_cnt s"
    by (simp_all add: s' k1 W_def C_def)
  have ptrs: "main_buf_head s' = (j mod W) * C" "sq_buf_head s' = (j mod W) * C"
    "main_buf_tail s' = ((j + 1) mod W) * C" "sq_buf_tail s' = ((j + 1) mod W) * C"
    "main_buf_cen s' = ((j + 1 + W div 2) mod W) * C"
    "sq_buf_cen s' = ((j + 1 + W div 2) mod W) * C"
    using adv m1 m2 by (simp_all add: s' s2_def k1 C_def W_def)
  have old: "main_buf_edge s = W * C" "sq_buf_edge s = W * C" "length (main_buf s) = W * C"
    "length (sq_buf s) = W * C" "C \<le> length (x_sq_ttl s)"
    "ra_frame_cnt s = int (W - W div 2)"
    using assms(2) by (simp_all add: ring_inv_def W_def C_def)
  show ?thesis
    unfolding ring_inv_def cst ptrs j' fp
    using W C old le m3 by simp
qed

section \<open>The invariants over a run\<close>

definition ring_part where
  "ring_part s =
     (rms_window_len s, numchannels s, x_sq_ttl s, main_buf_edge s, sq_buf_edge s,
      length (main_buf s), sq_buf s, sq_buf_head s, sq_buf_tail s, sq_buf_cen s,
      main_buf_head s, main_buf_tail s, main_buf_cen s, ra_frame_cnt s, frames_proc_ttl s)"

lemma ring_part_inv:
  assumes "ring_part s' = ring_part s"
  shows "ring_inv s' = ring_inv s" "sq_inv s' = sq_inv s" "ticks_done s' = ticks_done s"
  using assms by (simp_all add: ring_part_def ring_inv_def sq_inv_def ticks_done_def)

lemma dsp_ring_part: "dsp_part s' = dsp_part s \<Longrightarrow> ring_part s' = ring_part s"
  by (simp add: dsp_part_def ring_part_def)

lemmas update_context_ring [simp] = ring_part_inv [OF dsp_ring_part [OF update_context_dsp_part]]

lemma fetch_next_frame_sq_inv:
  assumes "fetch_next_frame opts s = Inr (b, s')" "ring_inv s" "sq_inv s"
  shows "sq_inv s'"
proof -
  from assms(1) obtain eof s1 where src: "fetch_source s = Inr (eof, s1)"
    and s': "s' = filter_new_frame opts (advance_buf_ptrs (s1\<lparr>cur_frame_pos := cur_frame_pos s1 + 1\<rparr>))"
    by (auto simp: fetch_next_frame_def Let_def split: sum.splits prod.splits)
  define s2 where "s2 = s1\<lparr>cur_frame_pos := cur_frame_pos s1 + 1\<rparr>"
  define s3 where "s3 = advance_buf_ptrs s2"
  note k1 = fetch_source_src [OF src] fetch_source_seg [OF src]
  have W: "0 < rms_window_len s" using assms(2) by (simp add: ring_inv_def)
  have ptr: "main_buf_tail s2 = (ticks_done s mod rms_window_len s2) * numchannels s2"
    "ticks_done s mod rms_window_len s2 < rms_window_len s2"
    "main_buf_cen s2
       = ((ticks_done s + rms_window_len s2 div 2) mod rms_window_len s2) * numchannels s2"
    "(ticks_done s + rms_window_len s2 div 2) mod rms_window_len s2 < rms_window_len s2"
    "main_buf_edge s2 = rms_window_len s2 * numchannels s2" "0 < numchannels s2"
    "sq_buf_edge s2 = main_buf_edge s2" "sq_buf_tail s2 = main_buf_tail s2"
    "sq_buf_cen s2 = main_buf_cen s2"
    using assms(2) W by (simp_all add: ring_inv_def s2_def k1)
  have "sq_inv s3"
    using assms(3) by (simp add: sq_inv_def s3_def s2_def k1)
  moreover have "numchannels s3 \<le> length (x_sq_ttl s3)"
    "length (sq_buf s3) = rms_window_len s3 * numchannels s3"
    using assms(2) by (simp_all add: ring_inv_def s3_def s2_def k1)
  moreover have "sq_buf_head s3 = (ticks_done s mod rms_window_len s3) * numchannels s3"
    using advance_buf_ptrs_ptrs(2) [OF ptr] by (simp add: s3_def s2_def)
  moreover have "ticks_done s mod rms_window_len s3 < rms_window_len s3"
    using W by (simp add: s3_def s2_def k1)
  ultimately have "sq_inv (filter_new_frame opts s3)"
    by (rule filter_new_frame_sq_inv)
  then show ?thesis by (simp add: s' s3_def s2_def)
qed

text \<open>The invariants hold at every tick of a loop that starts with them.\<close>

lemma cutter_ticks_ring_inv:
  assumes "cutter_ticks opts s0 s" "ring_inv s0" "sq_inv s0"
  shows "ring_inv s \<and> sq_inv s"
  using assms
proof (induction rule: cutter_ticks.induct)
  case first_tick
  then show ?case by simp
next
  case (next_tick s s')
  then have "ring_inv (update_context opts s)" "sq_inv (update_context opts s)"
    by simp_all
  with next_tick.hyps(2) show ?case
    using fetch_next_frame_ring_inv fetch_next_frame_sq_inv by blast
qed

section \<open>Startup establishes the invariants\<close>

lemma prime_buffers_stop:
  "\<not> (main_buf_head s < main_buf_edge s \<and> 0 < numchannels s) \<Longrightarrow> prime_buffers opts s = s"
  by (subst prime_buffers.simps) auto

lemma prime_buffers_step:
  "main_buf_head s < main_buf_edge s \<Longrightarrow> 0 < numchannels s \<Longrightarrow>
   prime_buffers opts s
     = prime_buffers opts
         ((filter_new_frame opts s)\<lparr>main_buf_head := main_buf_head s + numchannels s,
                                     sq_buf_head := sq_buf_head s + numchannels s\<rparr>)"
  by (subst prime_buffers.simps) (simp add: Let_def)

lemma prime_buffers_rule:
  assumes "P s"
    and "\<And>s. P s \<Longrightarrow> main_buf_head s < main_buf_edge s \<Longrightarrow> 0 < numchannels s
          \<Longrightarrow> P ((filter_new_frame opts s)\<lparr>main_buf_head := main_buf_head s + numchannels s,
                                            sq_buf_head := sq_buf_head s + numchannels s\<rparr>)"
  shows "P (prime_buffers opts s)
     \<and> \<not> (main_buf_head (prime_buffers opts s) < main_buf_edge (prime_buffers opts s)
          \<and> 0 < numchannels (prime_buffers opts s))"
  using assms
proof (induction opts s rule: prime_buffers.induct)
  case (1 opts s)
  show ?case
  proof (cases "main_buf_head s < main_buf_edge s \<and> 0 < numchannels s")
    case True
    then have "P ((filter_new_frame opts s)\<lparr>main_buf_head := main_buf_head s + numchannels s,
                                            sq_buf_head := sq_buf_head s + numchannels s\<rparr>)"
      using "1.prems" by simp
    with True "1.IH" "1.prems"(2) show ?thesis
      by (simp add: prime_buffers_step Let_def)
  next
    case False
    with "1.prems" show ?thesis
      by (simp only: prime_buffers_stop [OF False]) simp
  qed
qed

definition prime_keep where
  "prime_keep s =
     (seg_part s, in_file s, in_eof s, frames_remaining s, frames_read_ttl s, cur_frame_pos s,
      sq_buf_tail s, sq_buf_cen s, main_buf_tail s, main_buf_cen s, length (main_buf s),
      length (sq_buf s), length (x_sq_ttl s))"

lemma prime_buffers_keep: "prime_keep (prime_buffers opts s) = prime_keep s"
proof -
  have "prime_keep (prime_buffers opts s) = prime_keep s \<and> True"
    using prime_buffers_rule [where P = "\<lambda>x. prime_keep x = prime_keep s" and s = s and opts = opts]
    by (simp add: prime_keep_def seg_part_def)
  then show ?thesis by simp
qed

lemma slot_lt:
  fixes k W c C :: nat
  assumes "k < W" "c < C"
  shows "k * C + c < W * C"
proof -
  have "k * C + c < (k + 1) * C" using assms by simp
  also have "\<dots> \<le> W * C" using assms by (intro mult_le_mono1) simp
  finally show ?thesis .
qed

lemma init_state_cases:
  assumes "init_state opts sf names = Inr s0"
  obtains s1 fs rest where
    "open_input_file opts sf (zero_state\<lparr>cur_track_num := 1\<rparr>) = Inr s1"
    "0 < numchannels s1"
    "sf_readf_double (in_file (init_rings s1)) (nat (ra_frame_cnt (init_rings s1)))
       = Some (fs, rest)"
    "s0 = (if task opts = TCT_CUTTING
           then init_cutting opts names
                  (init_pointers (prime_buffers opts (init_leading fs rest (init_rings s1))))
           else init_pointers (prime_buffers opts (init_leading fs rest (init_rings s1))))"
  using assms
  by (auto simp: init_state_def Let_def split: sum.splits if_splits option.splits prod.splits)

lemma open_input_file_result:
  assumes "open_input_file opts sf s = Inr s1"
  shows "\<exists>items start len.
           s1 = s\<lparr>in_file := items, samplerate := sf_samplerate sf,
                  numchannels := sf_channels sf, cur_frame_pos := start,
                  frames_remaining := len\<rparr>"
  using assms by (auto simp: open_input_file_def Let_def split: option.splits)

lemma init_cutting_ring_part: "ring_part (init_cutting opts names s) = ring_part s"
  by (simp add: init_cutting_def Let_def open_track_names_file_def create_cuts_file_def
      print_cuts_header_def ring_part_def split: option.split prod.split)

lemma init_cutting_pos [simp]:
  "cur_frame_pos (init_cutting opts names s) = cur_frame_pos s"
  "frames_read_ttl (init_cutting opts names s) = frames_read_ttl s"
  "in_file (init_cutting opts names s) = in_file s"
  "in_eof (init_cutting opts names s) = in_eof s"
  "frames_remaining (init_cutting opts names s) = frames_remaining s"
  "main_buf (init_cutting opts names s) = main_buf s"
  by (simp_all add: init_cutting_def Let_def open_track_names_file_def create_cuts_file_def
      print_cuts_header_def split: option.split prod.split)

definition primed :: "nat \<Rightarrow> nat \<Rightarrow> state \<Rightarrow> bool" where
  "primed W C s \<longleftrightarrow>
     rms_window_len s = W \<and> numchannels s = C \<and> main_buf_edge s = W * C \<and>
     sq_buf_edge s = W * C \<and> length (sq_buf s) = W * C \<and> length (main_buf s) = W * C \<and>
     C \<le> length (x_sq_ttl s) \<and> sq_inv s \<and>
     (\<exists>h. W div 2 \<le> h \<and> h \<le> W \<and> main_buf_head s = h * C \<and> sq_buf_head s = h * C \<and>
          frames_proc_ttl s = int h - int (W div 2))"

lemma primed_step:
  assumes "primed W C s" "main_buf_head s < main_buf_edge s" "0 < numchannels s"
  shows "primed W C ((filter_new_frame opts s)\<lparr>main_buf_head := main_buf_head s + numchannels s,
                                                sq_buf_head := sq_buf_head s + numchannels s\<rparr>)"
proof -
  from assms(1) obtain h where h: "W div 2 \<le> h" "h \<le> W" "main_buf_head s = h * C"
    "sq_buf_head s = h * C" "frames_proc_ttl s = int h - int (W div 2)"
    by (auto simp: primed_def)
  have cst: "rms_window_len s = W" "numchannels s = C" "main_buf_edge s = W * C"
    "sq_buf_edge s = W * C" "length (sq_buf s) = W * C" "length (main_buf s) = W * C"
    "C \<le> length (x_sq_ttl s)" "sq_inv s"
    using assms(1) by (simp_all add: primed_def)
  have hW: "h < W"
    using assms(2) h cst by simp
  have "sq_inv (filter_new_frame opts s)"
    using cst h hW by (intro filter_new_frame_sq_inv [where h = h]) simp_all
  then have sq: "sq_inv ((filter_new_frame opts s)\<lparr>main_buf_head := main_buf_head s + numchannels s,
                                                sq_buf_head := sq_buf_head s + numchannels s\<rparr>)"
    by (simp add: sq_inv_def)
  show ?thesis
    unfolding primed_def
    using cst h hW sq
    by (auto intro!: exI [of _ "h + 1"])
qed

lemma init_state_inv:
  assumes init: "init_state opts sf names = Inr s0"
    and rate: "20 \<le> sf_samplerate sf" and chans: "sf_channels sf \<le> MAX_CHANNELS"
  shows "ring_inv s0" "sq_inv s0" "frames_proc_ttl s0 = ra_frame_cnt s0"
    "rms_window_len s0 = sf_samplerate sf * 50 div 1000" "numchannels s0 = sf_channels sf"
proof -
  define W where "W = sf_samplerate sf * 50 div 1000"
  define C where "C = sf_channels sf"
  from init obtain s1 fs rest where
    op: "open_input_file opts sf (zero_state\<lparr>cur_track_num := 1\<rparr>) = Inr s1"
    and C0: "0 < numchannels s1"
    and s0: "s0 = (if task opts = TCT_CUTTING
           then init_cutting opts names
                  (init_pointers (prime_buffers opts (init_leading fs rest (init_rings s1))))
           else init_pointers (prime_buffers opts (init_leading fs rest (init_rings s1))))"
    by (rule init_state_cases)
  from open_input_file_result [OF op] obtain items start len where
    s1: "s1 = zero_state\<lparr>cur_track_num := 1, in_file := items, samplerate := sf_samplerate sf,
                  numchannels := sf_channels sf, cur_frame_pos := start,
                  frames_remaining := len\<rparr>"
    by auto
  define sb where "sb = init_leading fs rest (init_rings s1)"
  define sc where "sc = prime_buffers opts sb"
  define sd where "sd = init_pointers sc"
  have W: "0 < W"
    using rate by (simp add: W_def)
  have C: "0 < C" "C \<le> MAX_CHANNELS"
    using C0 chans by (simp_all add: s1 C_def)
  have half: "W div 2 < W" using W by simp
  have ra: "(W * C - W div 2 * C) div C = W - W div 2"
    using C by (simp add: diff_mult_distrib [symmetric])
  have sb: "rms_window_len sb = W" "numchannels sb = C" "main_buf_edge sb = W * C"
    "sq_buf_edge sb = W * C" "sq_buf sb = replicate (W * C) 0" "length (main_buf sb) = W * C"
    "x_sq_ttl sb = replicate MAX_CHANNELS 0" "main_buf_head sb = (W div 2) * C"
    "sq_buf_head sb = (W div 2) * C" "frames_proc_ttl sb = 0"
    "main_buf_cen sb = (W div 2) * C" "sq_buf_cen sb = (W div 2) * C"
    "ra_frame_cnt sb = int (W - W div 2)"
    using ra
    by (simp_all add: sb_def init_leading_def init_rings_def Let_def s1 zero_state_def
        W_def C_def RMS_WINDOW_PERIOD_def)
  have "sq_inv sb"
    unfolding sq_inv_def sb MAX_CHANNELS_def using C
    by (intro allI impI) (simp add: slot_lt MAX_CHANNELS_def)
  then have "primed W C sb"
    using C half by (auto simp: primed_def sb intro!: exI [of _ "W div 2"])
  from prime_buffers_rule [of "primed W C", OF this primed_step, of opts]
  have sc: "primed W C sc" "\<not> main_buf_head sc < main_buf_edge sc"
    using C by (auto simp: sc_def primed_def)
  then obtain h where h: "h \<le> W" "main_buf_head sc = h * C"
    "frames_proc_ttl sc = int h - int (W div 2)"
    by (auto simp: primed_def)
  have "main_buf_edge sc = W * C" using sc by (simp add: primed_def)
  with sc(2) h C have "h = W" by (simp add: not_less)
  with h have fp: "frames_proc_ttl sc = int (W - W div 2)"
    using half by simp
  have keep: "prime_keep sc = prime_keep sb"
    by (simp add: sc_def prime_buffers_keep)
  then have kept: "main_buf_cen sc = main_buf_cen sb" "sq_buf_cen sc = sq_buf_cen sb"
    "ra_frame_cnt sc = ra_frame_cnt sb"
    by (simp_all add: prime_keep_def seg_part_def)
  have m: "(W - Suc 0) mod W = W - 1" "W div 2 mod W = W div 2"
    using W half by simp_all
  have sd_ring: "ring_inv sd"
    using sc(1) W C fp kept m
    by (simp add: ring_inv_def sd_def init_pointers_def primed_def sb ticks_done_def
        diff_mult_distrib)
  have sd_sq: "sq_inv sd"
    using sc(1) by (simp add: sq_inv_def sd_def init_pointers_def primed_def)
  have sd_c: "frames_proc_ttl sd = ra_frame_cnt sd" "rms_window_len sd = W" "numchannels sd = C"
    using sc(1) fp kept by (simp_all add: sd_def init_pointers_def primed_def sb)
  have rp: "ring_part s0 = ring_part sd"
    by (simp add: s0 sd_def sc_def sb_def init_cutting_ring_part)
  show "ring_inv s0" "sq_inv s0"
    using sd_ring sd_sq ring_part_inv [OF rp] by simp_all
  show "frames_proc_ttl s0 = ra_frame_cnt s0"
    "rms_window_len s0 = sf_samplerate sf * 50 div 1000" "numchannels s0 = sf_channels sf"
    using rp sd_c by (simp_all add: ring_part_def W_def C_def)
qed

section \<open>Startup succeeds\<close>

lemma sf_readf_double_ok:
  "ReadFault \<notin> set items \<Longrightarrow> \<exists>fs. sf_readf_double items n = Some (fs, drop n items)"
proof (induction items n rule: sf_readf_double.induct)
  case (4 f rest n)
  then obtain fs where "sf_readf_double rest n = Some (fs, drop n rest)" by auto
  then show ?case by simp
qed simp_all

lemma init_state_succeeds:
  assumes "0 < sf_channels sf" "\<not> time_range_given opts" "start_frame_idx opts = 0"
    "ReadFault \<notin> set (sf_items sf)"
  shows "\<exists>s0. init_state opts sf names = Inr s0"
proof -
  define s1 where "s1 = zero_state\<lparr>cur_track_num := 1, in_file := sf_items sf,
               samplerate := sf_samplerate sf, numchannels := sf_channels sf,
               cur_frame_pos := 0, frames_remaining := end_frame_idx opts\<rparr>"
  have op: "open_input_file opts sf (zero_state\<lparr>cur_track_num := 1\<rparr>) = Inr s1"
    using assms by (simp add: open_input_file_def Let_def s1_def)
  have inf: "in_file (init_rings s1) = sf_items sf"
    by (simp add: init_rings_def Let_def s1_def)
  have nc: "numchannels s1 \<noteq> 0"
    using assms by (simp add: s1_def)
  obtain fs where rd: "sf_readf_double (in_file (init_rings s1)) (nat (ra_frame_cnt (init_rings s1)))
      = Some (fs, drop (nat (ra_frame_cnt (init_rings s1))) (sf_items sf))"
    using sf_readf_double_ok [OF assms(4)] unfolding inf by blast
  show ?thesis
    unfolding init_state_def op using nc by (simp add: Let_def rd)
qed

lemma init_state_projr:
  assumes "0 < sf_channels sf" "\<not> time_range_given opts" "start_frame_idx opts = 0"
    "ReadFault \<notin> set (sf_items sf)"
  shows "init_state opts sf names = Inr (projr (init_state opts sf names))"
  using init_state_succeeds [OF assms, of names] by auto

section \<open>Positions and constants over a run\<close>

lemma fetch_next_frame_pos:
  assumes "fetch_next_frame opts s = Inr (b, s')"
  shows "cur_frame_pos s' = cur_frame_pos s + 1" "frames_proc_ttl s' = frames_proc_ttl s + 1"
proof -
  from assms obtain eof s1 where src: "fetch_source s = Inr (eof, s1)"
    and s': "s' = filter_new_frame opts (advance_buf_ptrs (s1\<lparr>cur_frame_pos := cur_frame_pos s1 + 1\<rparr>))"
    by (auto simp: fetch_next_frame_def Let_def split: sum.splits prod.splits)
  show "cur_frame_pos s' = cur_frame_pos s + 1" "frames_proc_ttl s' = frames_proc_ttl s + 1"
    by (simp_all add: s' fetch_source_src [OF src])
qed

lemma fetch_source_read:
  assumes "fetch_source s = Inr (eof, s')" "\<not> in_eof s'" "\<not> eof"
  shows "\<not> in_eof s \<and> frames_read_ttl s' = frames_read_ttl s + 1"
  using assms
  by (auto simp: fetch_source_def Let_def split: if_splits option.splits prod.splits)

lemma fetch_next_frame_read:
  assumes "fetch_next_frame opts s = Inr (True, s')" "\<not> in_eof s'"
  shows "\<not> in_eof s \<and> frames_read_ttl s' = frames_read_ttl s + 1"
proof -
  from assms obtain s1 where src: "fetch_source s = Inr (False, s1)"
    and s': "s' = filter_new_frame opts (advance_buf_ptrs (s1\<lparr>cur_frame_pos := cur_frame_pos s1 + 1\<rparr>))"
    by (auto simp: fetch_next_frame_def Let_def split: sum.splits prod.splits)
  from assms(2) have "\<not> in_eof s1" by (simp add: s')
  from fetch_source_read [OF src this] show ?thesis by (simp add: s')
qed

lemma cutter_ticks_pos:
  assumes "cutter_ticks opts s0 s"
  shows "frames_proc_ttl s - cur_frame_pos s = frames_proc_ttl s0 - cur_frame_pos s0"
    and "\<not> in_eof s \<longrightarrow>
         frames_read_ttl s - cur_frame_pos s = frames_read_ttl s0 - cur_frame_pos s0"
  using assms
proof (induction rule: cutter_ticks.induct)
  case first_tick
  case 1 show ?case by simp
  case 2 show ?case by simp
next
  case (next_tick s s')
  note f = next_tick.hyps(2)
  case 1
  show ?case using fetch_next_frame_pos [OF f] next_tick.IH(1) by simp
  case 2
  show ?case
    using fetch_next_frame_pos [OF f] fetch_next_frame_read [OF f] next_tick.IH(2) by auto
qed

lemma cutter_ticks_seg_consts:
  assumes "cutter_ticks opts s0 s"
  shows "numchannels s = numchannels s0 \<and> rms_window_len s = rms_window_len s0
       \<and> n_x_nf_sq s = n_x_nf_sq s0 \<and> ra_frame_cnt s = ra_frame_cnt s0
       \<and> min_signal_len s = min_signal_len s0 \<and> min_silence_len s = min_silence_len s0
       \<and> min_track_len s = min_track_len s0 \<and> leadin_buf_edge s = leadin_buf_edge s0
       \<and> cuts_file s = cuts_file s0"
  using assms
proof (induction rule: cutter_ticks.induct)
  case first_tick
  show ?case by simp
next
  case (next_tick s s')
  show ?case
    using fetch_next_frame_seg [OF next_tick.hyps(2)] next_tick.IH by simp
qed

lemma init_state_read:
  assumes "init_state opts sf names = Inr s0"
  shows "frames_read_ttl s0 = ra_frame_cnt s0" "\<not> in_eof s0"
proof -
  from assms obtain s1 fs rest where
    op: "open_input_file opts sf (zero_state\<lparr>cur_track_num := 1\<rparr>) = Inr s1"
    and s0: "s0 = (if task opts = TCT_CUTTING
           then init_cutting opts names
                  (init_pointers (prime_buffers opts (init_leading fs rest (init_rings s1))))
           else init_pointers (prime_buffers opts (init_leading fs rest (init_rings s1))))"
    by (rule init_state_cases)
  from open_input_file_result [OF op] obtain items start len where
    s1: "s1 = zero_state\<lparr>cur_track_num := 1, in_file := items, samplerate := sf_samplerate sf,
                  numchannels := sf_channels sf, cur_frame_pos := start,
                  frames_remaining := len\<rparr>"
    by auto
  define sb where "sb = init_leading fs rest (init_rings s1)"
  have keep: "prime_keep (prime_buffers opts sb) = prime_keep sb"
    by (rule prime_buffers_keep)
  have sb: "frames_read_ttl sb = ra_frame_cnt sb" "\<not> in_eof sb"
    by (simp_all add: sb_def init_leading_def init_rings_def Let_def s1 zero_state_def)
  have rp: "ring_part s0 = ring_part (init_pointers (prime_buffers opts sb))"
    by (simp add: s0 sb_def init_cutting_ring_part)
  have "frames_read_ttl s0 = frames_read_ttl sb" "in_eof s0 = in_eof sb"
    "ra_frame_cnt s0 = ra_frame_cnt sb"
    using keep rp
    by (simp_all add: s0 sb_def [symmetric] init_pointers_def prime_keep_def seg_part_def
        ring_part_def)
  with sb show "frames_read_ttl s0 = ra_frame_cnt s0" "\<not> in_eof s0" by simp_all
qed

text \<open>Every tick of a run that \<^verbatim>\<open>init_state\<close> has started satisfies the invariants.\<close>

lemma run_inv:
  assumes "init_state opts sf names = Inr s0" "20 \<le> sf_samplerate sf"
    "sf_channels sf \<le> MAX_CHANNELS" "cutter_ticks opts s0 s"
  shows "ring_inv s" "sq_inv s" "rms_window_len s = sf_samplerate sf * 50 div 1000"
    "numchannels s = sf_channels sf"
    "ra_frame_cnt s = int (rms_window_len s - rms_window_len s div 2)"
    "frames_proc_ttl s - cur_frame_pos s = ra_frame_cnt s - cur_frame_pos s0"
    "\<not> in_eof s \<longrightarrow> frames_read_ttl s - cur_frame_pos s = ra_frame_cnt s - cur_frame_pos s0"
proof -
  note i = init_state_inv [OF assms(1-3)] init_state_read [OF assms(1)]
  note c = cutter_ticks_seg_consts [OF assms(4)]
  show r: "ring_inv s" and "sq_inv s"
    using cutter_ticks_ring_inv [OF assms(4) i(1,2)] by simp_all
  show "rms_window_len s = sf_samplerate sf * 50 div 1000" "numchannels s = sf_channels sf"
    using c i by simp_all
  show "ra_frame_cnt s = int (rms_window_len s - rms_window_len s div 2)"
    using r by (simp add: ring_inv_def)
  show "frames_proc_ttl s - cur_frame_pos s = ra_frame_cnt s - cur_frame_pos s0"
    "\<not> in_eof s \<longrightarrow> frames_read_ttl s - cur_frame_pos s = ra_frame_cnt s - cur_frame_pos s0"
    using cutter_ticks_pos [OF assms(4)] c i by simp_all
qed

section \<open>The signal predicate\<close>

lemma we_have_signal_from_iff:
  "we_have_signal_from s c res \<longleftrightarrow>
     res \<or> (\<exists>k. c \<le> k \<and> k < numchannels s \<and> n_x_nf_sq s < x_sq_ttl s ! k)"
proof (induction s c res rule: we_have_signal_from.induct)
  case (1 s c res)
  show ?case
  proof (cases "\<not> res \<and> c < numchannels s")
    case True
    have "(\<exists>k. c \<le> k \<and> k < numchannels s \<and> n_x_nf_sq s < x_sq_ttl s ! k)
      \<longleftrightarrow> n_x_nf_sq s < x_sq_ttl s ! c
         \<or> (\<exists>k. c + 1 \<le> k \<and> k < numchannels s \<and> n_x_nf_sq s < x_sq_ttl s ! k)"
      using True by (metis Suc_eq_plus1 Suc_leI le_eq_less_or_eq Suc_leD)
    with True "1.IH" show ?thesis
      by (subst we_have_signal_from.simps) simp
  next
    case False
    then show ?thesis
      by (subst we_have_signal_from.simps) auto
  qed
qed

lemma we_have_signal_iff:
  "we_have_signal s \<longleftrightarrow> (\<exists>c<numchannels s. n_x_nf_sq s < x_sq_ttl s ! c)"
  by (simp add: we_have_signal_def we_have_signal_from_iff)

lemma we_have_signal_cong:
  "numchannels s' = numchannels s \<Longrightarrow> n_x_nf_sq s' = n_x_nf_sq s
   \<Longrightarrow> x_sq_ttl s' = x_sq_ttl s \<Longrightarrow> we_have_signal s' = we_have_signal s"
  by (simp add: we_have_signal_iff)

lemma we_have_signal_commit [simp]:
  "we_have_signal (commit_current_frame opts s) = we_have_signal s"
  by (rule we_have_signal_cong) simp_all

lemma noise_floor_level_eq: "noise_floor_level d = 10 powr (d / 20)"
proof -
  have "ln (2::real) \<noteq> 0" by simp
  then show ?thesis
    by (simp add: noise_floor_level_def powr_def log_def field_simps)
qed

section \<open>A tick in \<open>CCTX_TRACK_ENDING\<close>\<close>

lemma ex_ending_fields:
  "cut_context ex_ending = CCTX_TRACK_ENDING" "time_to_live ex_ending = 0"
  "numchannels ex_ending = 1" "n_x_nf_sq ex_ending = 1 / 100"
  "x_sq_ttl ex_ending = (replicate MAX_CHANNELS 0)[0 := 1 / 256]"
  "main_buf ex_ending = [1 / 16]" "main_buf_cen ex_ending = 0"
  "out_file ex_ending" "sink ex_ending = []" "cur_track_name ex_ending = None"
  "cur_track_num ex_ending = 1"
  by (simp_all add: ex_ending_def zero_state_def)

lemma ex_ending_silent: "\<not> we_have_signal ex_ending"
  by (simp add: we_have_signal_iff ex_ending_fields MAX_CHANNELS_def)

text \<open>
  Claim C3, as stated, says that the tick that ends a track (\<open>CCTX_TRACK_ENDING\<close>, no
  signal, dwell counter at zero) does not commit the centre frame. In the source the
  case begins with \<^verbatim>\<open>commit_current_frame()\<close>, before the verdict is looked at. In
  extraction mode the example state therefore writes its centre frame to the track
  file and only then closes the file.
\<close>

theorem track_ending_final_tick_commits:
  "cut_context ex_ending = CCTX_TRACK_ENDING \<and> \<not> we_have_signal ex_ending
   \<and> time_to_live ex_ending = 0
   \<and> sink (update_context ex_extract_opts ex_ending) = [OutWrite [[1 / 16]], OutClose]
   \<and> cut_context (update_context ex_extract_opts ex_ending) = CCTX_SILENCE"
  using ex_ending_silent
  by (simp add: update_context_def Let_def ex_ending_fields)
     (simp add: ex_ending_fields commit_current_frame_def force_end_of_track_def Let_def
      close_out_file_def ex_extract_opts_def init_options_def load_frame_def)

text \<open>
  Claim C3, amended. In \<open>CCTX_TRACK_ENDING\<close> every tick first commits the centre frame
  (nothing in cut sheet mode, one frame written to the track file in extraction
  mode). Then: with signal the machine returns to \<open>CCTX_TRACK\<close>; without signal and
  with a positive dwell counter it stays and decrements the counter; without signal
  and with the counter used up it performs \<open>force_end_of_track\<close>, goes to
  \<open>CCTX_SILENCE\<close> and increments \<open>cur_track_num\<close>.
\<close>

theorem track_ending_tick:
  assumes "cut_context s = CCTX_TRACK_ENDING"
  shows "(we_have_signal s \<longrightarrow>
            update_context opts s = (commit_current_frame opts s)\<lparr>cut_context := CCTX_TRACK\<rparr>)
       \<and> (\<not> we_have_signal s \<and> time_to_live s > 0 \<longrightarrow>
            update_context opts s
              = (commit_current_frame opts s)\<lparr>time_to_live := time_to_live s - 1\<rparr>)
       \<and> (\<not> we_have_signal s \<and> \<not> time_to_live s > 0 \<longrightarrow>
            update_context opts s
              = (force_end_of_track opts (commit_current_frame opts s))
                  \<lparr>cut_context := CCTX_SILENCE, cur_track_num := cur_track_num s + 1\<rparr>)
       \<and> sink (commit_current_frame opts s)
            = sink s @ (if cut_point_action opts = CPA_LOG_POINT then []
                        else [OutWrite [load_frame (main_buf s) (main_buf_cen s)
                                          (numchannels s)]])"
  using assms
  by (simp add: update_context_def Let_def)
     (simp add: commit_current_frame_def force_end_of_track_def close_out_file_def
      print_track_cut_def Let_def split: option.split)

theorem track_ending_tick_witness:
  "update_context ex_extract_opts ex_ending
     = (force_end_of_track ex_extract_opts (commit_current_frame ex_extract_opts ex_ending))
         \<lparr>cut_context := CCTX_SILENCE, cur_track_num := cur_track_num ex_ending + 1\<rparr>
   \<and> update_context ex_extract_opts (ex_ending\<lparr>time_to_live := 5\<rparr>)
     = (commit_current_frame ex_extract_opts (ex_ending\<lparr>time_to_live := 5\<rparr>))
         \<lparr>time_to_live := 4\<rparr>
   \<and> update_context ex_extract_opts (ex_ending\<lparr>n_x_nf_sq := 1 / 1000\<rparr>)
     = (commit_current_frame ex_extract_opts (ex_ending\<lparr>n_x_nf_sq := 1 / 1000\<rparr>))
         \<lparr>cut_context := CCTX_TRACK\<rparr>"
proof -
  have a: "\<not> we_have_signal (ex_ending\<lparr>time_to_live := 5\<rparr>)"
    using ex_ending_silent by (simp add: we_have_signal_iff)
  have b: "we_have_signal (ex_ending\<lparr>n_x_nf_sq := 1 / 1000\<rparr>)"
    by (simp add: we_have_signal_iff ex_ending_fields MAX_CHANNELS_def)
  show ?thesis
    using track_ending_tick [of ex_ending ex_extract_opts]
      track_ending_tick [of "ex_ending\<lparr>time_to_live := 5\<rparr>" ex_extract_opts]
      track_ending_tick [of "ex_ending\<lparr>n_x_nf_sq := 1 / 1000\<rparr>" ex_extract_opts]
      ex_ending_silent a b
    by (simp add: ex_ending_fields)
qed

section \<open>Example runs: startup\<close>

lemma ex_start_init: "init_state ex_opts ex_file None = Inr ex_start"
  unfolding ex_start_def
  by (rule init_state_projr) (simp_all add: ex_opts_def ex_file_def init_options_def)

lemma ex_start_48k_init: "init_state init_options ex_file_48k None = Inr ex_start_48k"
  unfolding ex_start_48k_def
  by (rule init_state_projr) (simp_all add: ex_file_48k_def init_options_def)

lemma ex_start_44k_init: "init_state init_options ex_file_44k None = Inr ex_start_44k"
  unfolding ex_start_44k_def
  by (rule init_state_projr) (simp_all add: ex_file_44k_def init_options_def)

lemma ex_file_ok:
  "20 \<le> sf_samplerate ex_file" "sf_channels ex_file \<le> MAX_CHANNELS"
  "20 \<le> sf_samplerate ex_file_48k" "sf_channels ex_file_48k \<le> MAX_CHANNELS"
  "20 \<le> sf_samplerate ex_file_44k" "sf_channels ex_file_44k \<le> MAX_CHANNELS"
  by (simp_all add: ex_file_def ex_file_48k_def ex_file_44k_def MAX_CHANNELS_def)

lemma init_state_range:
  assumes "init_state opts sf names = Inr s0" "\<not> time_range_given opts"
  shows "cur_frame_pos s0 = start_frame_idx opts"
    "frames_remaining s0 = end_frame_idx opts - start_frame_idx opts"
proof -
  from assms(1) obtain s1 fs rest where
    op: "open_input_file opts sf (zero_state\<lparr>cur_track_num := 1\<rparr>) = Inr s1"
    and s0: "s0 = (if task opts = TCT_CUTTING
           then init_cutting opts names
                  (init_pointers (prime_buffers opts (init_leading fs rest (init_rings s1))))
           else init_pointers (prime_buffers opts (init_leading fs rest (init_rings s1))))"
    by (rule init_state_cases)
  have "cur_frame_pos s1 = start_frame_idx opts"
    "frames_remaining s1 = end_frame_idx opts - start_frame_idx opts"
    using op assms(2)
    by (auto simp: open_input_file_def Let_def split: option.splits if_splits)
  moreover have "prime_keep (prime_buffers opts (init_leading fs rest (init_rings s1)))
      = prime_keep (init_leading fs rest (init_rings s1))"
    by (rule prime_buffers_keep)
  ultimately show "cur_frame_pos s0 = start_frame_idx opts"
    "frames_remaining s0 = end_frame_idx opts - start_frame_idx opts"
    by (simp_all add: s0 init_pointers_def prime_keep_def init_leading_def init_rings_def
        Let_def)
qed

section \<open>The centre lag\<close>

text \<open>
  Claim C2, as stated, puts the centre \<open>W / 2\<close> frames behind the newest admitted
  frame. At 48000 Hz the window is 2400 frames; after priming the centre holds frame 0
  and the head holds frame 1199, not frame 1200.
\<close>

theorem centre_lag_48k:
  "rms_window_len ex_start_48k = 2400 \<and> cur_frame_pos ex_start_48k = 0
   \<and> head_frame_index ex_start_48k ex_start_48k = 1199
   \<and> cur_frame_pos ex_start_48k
       \<noteq> head_frame_index ex_start_48k ex_start_48k - int (rms_window_len ex_start_48k div 2)"
proof -
  note r = run_inv [OF ex_start_48k_init ex_file_ok(3,4) first_tick]
  have W: "rms_window_len ex_start_48k = 2400"
    using r(3) by (simp add: ex_file_48k_def)
  have pos: "cur_frame_pos ex_start_48k = 0"
    using init_state_range [OF ex_start_48k_init] by (simp add: init_options_def)
  show ?thesis
    using r(5,6) W pos by (simp add: head_frame_index_def)
qed

text \<open>
  Claim C2, amended. At every tick of a run with \<open>W \<ge> 1\<close> and at most 8 channels the
  centre is \<open>W - W / 2 - 1\<close> frames behind the newest admitted frame, in frame indices
  and as a distance between the centre and the head pointers in the ring; until the
  codec reports the end of the file it is \<open>W - W / 2\<close> frames behind the number of
  frames read. The first lag is \<open>W / 2\<close> exactly when \<open>W\<close> is odd, the second exactly
  when \<open>W\<close> is even.
\<close>

theorem centre_lag:
  assumes "init_state opts sf names = Inr s0" "20 \<le> sf_samplerate sf"
    "sf_channels sf \<le> MAX_CHANNELS" "cutter_ticks opts s0 s"
  shows "rms_window_len s = sf_samplerate sf * 50 div 1000
       \<and> cur_frame_pos s
           = head_frame_index s0 s - (int (rms_window_len s - rms_window_len s div 2) - 1)
       \<and> main_buf_head s
           = ((main_buf_cen s div numchannels s
                + (rms_window_len s - rms_window_len s div 2 - 1)) mod rms_window_len s)
             * numchannels s
       \<and> (\<not> in_eof s \<longrightarrow>
            cur_frame_pos s
              = cur_frame_pos s0 + frames_read_ttl s
                - int (rms_window_len s - rms_window_len s div 2))"
proof -
  note r = run_inv [OF assms]
  define W where "W = rms_window_len s"
  define C where "C = numchannels s"
  define j where "j = ticks_done s"
  have W: "0 < W" and C: "0 < C"
    and head: "main_buf_head s = ((j + W - 1) mod W) * C"
    and cen: "main_buf_cen s = ((j + W div 2) mod W) * C"
    using r(1) by (simp_all add: ring_inv_def W_def C_def j_def)
  have half: "W div 2 < W" using W by simp
  have "main_buf_cen s div C = (j + W div 2) mod W"
    using cen C by simp
  moreover have "((j + W div 2) mod W + (W - W div 2 - 1)) mod W
      = (j + W div 2 + (W - W div 2 - 1)) mod W"
    by (rule mod_add_left_eq)
  moreover have "j + W div 2 + (W - W div 2 - 1) = j + W - 1"
    using half by simp
  ultimately have "main_buf_head s = ((main_buf_cen s div C + (W - W div 2 - 1)) mod W) * C"
    using head by simp
  moreover have "cur_frame_pos s = head_frame_index s0 s - (int (W - W div 2) - 1)"
    using r(5,6) by (simp add: head_frame_index_def W_def)
  moreover have "\<not> in_eof s \<longrightarrow>
      cur_frame_pos s = cur_frame_pos s0 + frames_read_ttl s - int (W - W div 2)"
    using r(5,7) by (auto simp: W_def)
  ultimately show ?thesis
    using r(3) unfolding W_def C_def by blast
qed

theorem centre_lag_witness:
  "rms_window_len ex_start_48k = 48000 * 50 div 1000
   \<and> cur_frame_pos ex_start_48k = head_frame_index ex_start_48k ex_start_48k - (1200 - 1)
   \<and> main_buf_head ex_start_48k
       = ((main_buf_cen ex_start_48k div 2 + (2400 - 1200 - 1)) mod 2400) * 2
   \<and> cur_frame_pos ex_start_48k
       = cur_frame_pos ex_start_48k + frames_read_ttl ex_start_48k - 1200"
proof -
  note r = run_inv [OF ex_start_48k_init ex_file_ok(3,4) first_tick]
  have W: "rms_window_len ex_start_48k = 2400" "numchannels ex_start_48k = 2"
    using r(3,4) by (simp_all add: ex_file_48k_def)
  have "\<not> in_eof ex_start_48k"
    using init_state_read [OF ex_start_48k_init] by simp
  with centre_lag [OF ex_start_48k_init ex_file_ok(3,4) first_tick] W
  show ?thesis by (simp add: ex_file_48k_def)
qed

section \<open>The signal predicate at the noise floor\<close>

lemma init_cutting_threshold:
  "n_x_nf_sq (init_cutting opts names s)
     = noise_floor_level (noise_floor_dbfs opts) * noise_floor_level (noise_floor_dbfs opts)
       * real (rms_window_len s)"
  by (simp add: init_cutting_def Let_def open_track_names_file_def create_cuts_file_def
      print_cuts_header_def split: option.split prod.split)

lemma init_state_threshold:
  assumes "init_state opts sf names = Inr s0" "task opts = TCT_CUTTING"
  shows "n_x_nf_sq s0 = (10 powr (noise_floor_dbfs opts / 20))\<^sup>2 * real (rms_window_len s0)"
proof -
  from assms(1) obtain s1 fs rest where
    s0: "s0 = (if task opts = TCT_CUTTING
           then init_cutting opts names
                  (init_pointers (prime_buffers opts (init_leading fs rest (init_rings s1))))
           else init_pointers (prime_buffers opts (init_leading fs rest (init_rings s1))))"
    by (rule init_state_cases)
  define sd where "sd = init_pointers (prime_buffers opts (init_leading fs rest (init_rings s1)))"
  have "ring_part s0 = ring_part sd"
    using assms(2) by (simp add: s0 sd_def init_cutting_ring_part)
  then have "rms_window_len s0 = rms_window_len sd"
    by (simp add: ring_part_def)
  then show ?thesis
    using assms(2)
    by (simp add: s0 sd_def [symmetric] init_cutting_threshold noise_floor_level_eq power2_eq_square)
qed

text \<open>
  Claim C6. In a run of the cutting task the signal predicate is true exactly when the
  running sum of squares of at least one channel is strictly above \<open>x_nf\<^sup>2 * W\<close>,
  where \<open>x_nf = 10 powr (noise_floor_dbfs / 20)\<close> and \<open>W\<close> is the window length in frames
  (in exact arithmetic).
\<close>

theorem signal_iff_above_noise_floor:
  assumes "init_state opts sf names = Inr s0" "task opts = TCT_CUTTING"
    "cutter_ticks opts s0 s"
  shows "we_have_signal s \<longleftrightarrow>
     (\<exists>c<numchannels s.
        (10 powr (noise_floor_dbfs opts / 20))\<^sup>2 * real (rms_window_len s) < x_sq_ttl s ! c)"
  using init_state_threshold [OF assms(1,2)] cutter_ticks_seg_consts [OF assms(3)]
  by (simp add: we_have_signal_iff)

theorem signal_iff_above_noise_floor_witness:
  "we_have_signal ex_start \<longleftrightarrow>
     (\<exists>c<numchannels ex_start.
        (10 powr (noise_floor_dbfs ex_opts / 20))\<^sup>2 * real (rms_window_len ex_start)
          < x_sq_ttl ex_start ! c)"
proof -
  have "task ex_opts = TCT_CUTTING"
    by (simp add: ex_opts_def init_options_def)
  from signal_iff_above_noise_floor [OF ex_start_init this first_tick]
  show ?thesis .
qed

section \<open>Draining the look-ahead at the end of the file\<close>

lemma ring_inv_tail:
  assumes "ring_inv s"
  shows "main_buf_tail s + numchannels s \<le> length (main_buf s)"
proof -
  define W where "W = rms_window_len s"
  define C where "C = numchannels s"
  from assms have W: "0 < W" and t: "main_buf_tail s = (ticks_done s mod W) * C"
    and len: "length (main_buf s) = W * C"
    by (simp_all add: ring_inv_def W_def C_def)
  have "ticks_done s mod W + 1 \<le> W" using W by (simp add: Suc_leI)
  then have "(ticks_done s mod W + 1) * C \<le> W * C" by (rule mult_le_mono1)
  then show ?thesis using t len by (simp add: C_def)
qed

lemma fetch_source_pad:
  assumes "in_eof s \<or> frames_remaining s \<le> 0 \<or> in_file s = []" "ring_inv s"
  shows "\<exists>s1. fetch_source s = Inr (in_eof s \<and> frames_remaining s \<le> 0 \<or> frames_remaining s \<le> 0, s1)
     \<and> in_eof s1 = (in_eof s \<or> 0 < frames_remaining s)
     \<and> frames_remaining s1
         = (if in_eof s then (if 0 < frames_remaining s then frames_remaining s - 1
                              else frames_remaining s)
            else if 0 < frames_remaining s
                 then min (frames_remaining s - 1) (ra_frame_cnt s)
                 else frames_remaining s)
     \<and> in_file s1 = in_file s
     \<and> source_frame s = replicate (numchannels s) 0"
proof -
  have z: "load_frame (store_frame (main_buf s) (main_buf_tail s) (replicate (numchannels s) 0))
      (main_buf_tail s) (numchannels s) = replicate (numchannels s) 0"
    using load_store_same [of "main_buf_tail s" "replicate (numchannels s) 0" "main_buf s"]
      ring_inv_tail [OF assms(2)] by simp
  have rd: "sf_readf_double [] 1 = Some ([], [])"
    by simp
  show ?thesis
  proof (cases "\<not> in_eof s \<and> 0 < frames_remaining s")
    case True
    with assms(1) have "in_file s = []" by auto
    with True z rd show ?thesis
      by (simp add: fetch_source_def source_frame_def Let_def min_def)
  next
    case False
    with z show ?thesis
      by (auto simp: fetch_source_def source_frame_def Let_def)
  qed
qed

lemma fetch_next_frame_pad:
  assumes "in_eof s \<or> frames_remaining s \<le> 0 \<or> in_file s = []" "ring_inv s"
  shows "\<exists>s'. fetch_next_frame opts s = Inr (0 < frames_remaining s, s')
     \<and> in_eof s' = (in_eof s \<or> 0 < frames_remaining s)
     \<and> frames_remaining s'
         = (if in_eof s then (if 0 < frames_remaining s then frames_remaining s - 1
                              else frames_remaining s)
            else if 0 < frames_remaining s
                 then min (frames_remaining s - 1) (ra_frame_cnt s)
                 else frames_remaining s)
     \<and> in_file s' = in_file s \<and> ring_inv s' \<and> numchannels s' = numchannels s
     \<and> ra_frame_cnt s' = ra_frame_cnt s
     \<and> source_frame s = replicate (numchannels s) 0"
proof -
  from fetch_source_pad [OF assms] obtain s1 where
    src: "fetch_source s
       = Inr (in_eof s \<and> frames_remaining s \<le> 0 \<or> frames_remaining s \<le> 0, s1)"
    and s1: "in_eof s1 = (in_eof s \<or> 0 < frames_remaining s)"
      "frames_remaining s1
         = (if in_eof s then (if 0 < frames_remaining s then frames_remaining s - 1
                              else frames_remaining s)
            else if 0 < frames_remaining s
                 then min (frames_remaining s - 1) (ra_frame_cnt s)
                 else frames_remaining s)"
      "in_file s1 = in_file s"
      "source_frame s = replicate (numchannels s) 0"
    by blast
  define s' where
    "s' = filter_new_frame opts (advance_buf_ptrs (s1\<lparr>cur_frame_pos := cur_frame_pos s1 + 1\<rparr>))"
  have f: "fetch_next_frame opts s = Inr (0 < frames_remaining s, s')"
    unfolding fetch_next_frame_def src by (auto simp: Let_def s'_def)
  have fr: "frames_remaining (advance_buf_ptrs x) = frames_remaining x" for x
    by (simp add: advance_buf_ptrs_def Let_def)
  have "in_eof s' = in_eof s1" "frames_remaining s' = frames_remaining s1"
    "in_file s' = in_file s1"
    by (simp_all add: s'_def fr)
  with s1 f fetch_next_frame_ring_inv [OF f assms(2)] fetch_next_frame_seg [OF f]
  show ?thesis by (intro exI [of _ s']) simp
qed

lemma map_shift_upt: "map f [0..<Suc n] = f 0 # map (\<lambda>k. f (Suc k)) [0..<n]"
  by (simp only: upt_conv_Cons [of 0 "Suc n"] map_Suc_upt [symmetric]) (simp add: comp_def)

lemma fetch_many_eof:
  assumes "in_eof s" "ring_inv s"
  shows "\<exists>s'. fetch_many opts n s
           = Inr (map (\<lambda>k. (int k < frames_remaining s, replicate (numchannels s) 0)) [0..<n], s')"
  using assms
proof (induction n arbitrary: s)
  case 0
  show ?case by simp
next
  case (Suc n)
  from fetch_next_frame_pad [of s opts] Suc.prems obtain s1 where
    f: "fetch_next_frame opts s = Inr (0 < frames_remaining s, s1)"
    and s1: "in_eof s1" "ring_inv s1" "numchannels s1 = numchannels s"
      "frames_remaining s1
         = (if 0 < frames_remaining s then frames_remaining s - 1 else frames_remaining s)"
      "source_frame s = replicate (numchannels s) 0"
    by auto
  from Suc.IH [OF s1(1,2)] obtain s' where
    m: "fetch_many opts n s1
       = Inr (map (\<lambda>k. (int k < frames_remaining s1, replicate (numchannels s1) 0)) [0..<n], s')"
    by blast
  have "(int (Suc k) < frames_remaining s) = (int k < frames_remaining s1)" for k
    using s1(4) by auto
  then show ?case
    using f m s1(3,5) by (simp only: map_shift_upt) (simp add: s1(3))
qed

lemma init_state_in_file:
  assumes "init_state opts sf names = Inr s0" "\<not> time_range_given opts"
    "start_frame_idx opts = 0" "ReadFault \<notin> set (sf_items sf)"
  shows "in_file s0 = drop (nat (ra_frame_cnt s0)) (sf_items sf)"
proof -
  from assms(1) obtain s1 fs rest where
    op: "open_input_file opts sf (zero_state\<lparr>cur_track_num := 1\<rparr>) = Inr s1"
    and rd: "sf_readf_double (in_file (init_rings s1)) (nat (ra_frame_cnt (init_rings s1)))
       = Some (fs, rest)"
    and s0: "s0 = (if task opts = TCT_CUTTING
           then init_cutting opts names
                  (init_pointers (prime_buffers opts (init_leading fs rest (init_rings s1))))
           else init_pointers (prime_buffers opts (init_leading fs rest (init_rings s1))))"
    by (rule init_state_cases)
  have "in_file s1 = sf_items sf"
    using op assms(2,3) by (auto simp: open_input_file_def Let_def split: option.splits if_splits)
  then have inf: "in_file (init_rings s1) = sf_items sf"
    by (simp add: init_rings_def Let_def)
  from sf_readf_double_ok [OF assms(4), of "nat (ra_frame_cnt (init_rings s1))"] rd
  have rest: "rest = drop (nat (ra_frame_cnt (init_rings s1))) (sf_items sf)"
    by (auto simp: inf)
  define sb where "sb = init_leading fs rest (init_rings s1)"
  have keep: "prime_keep (prime_buffers opts sb) = prime_keep sb"
    by (rule prime_buffers_keep)
  have rp: "ring_part s0 = ring_part (init_pointers (prime_buffers opts sb))"
    by (simp add: s0 sb_def init_cutting_ring_part)
  have "in_file s0 = in_file sb" "ra_frame_cnt s0 = ra_frame_cnt sb"
    using keep rp
    by (simp_all add: s0 sb_def [symmetric] init_pointers_def prime_keep_def seg_part_def
        ring_part_def)
  moreover have "in_file sb = rest" "ra_frame_cnt sb = ra_frame_cnt (init_rings s1)"
    by (simp_all add: sb_def init_leading_def)
  ultimately show ?thesis using rest by simp
qed

lemma map_less_replicate:
  "int n \<le> m \<Longrightarrow> map (\<lambda>k. int k < m) [0..<n] = replicate n True"
  by (induction n) (simp_all add: replicate_append_same)

text \<open>
  Claim C5, as stated, lets the frame source deliver pad frames for at most \<open>W / 2\<close>
  further calls after the call that meets the end of the file. At 44100 Hz the window
  is 2205 frames and \<open>W / 2 = 1102\<close>; on an empty recording the first call meets the
  end of the file, and that call and the 1103 calls after it all return true.
\<close>

theorem eof_drain_44k:
  "rms_window_len ex_start_44k div 2 = 1102
   \<and> in_file ex_start_44k = [] \<and> \<not> in_eof ex_start_44k
   \<and> map fst (fst (projr (fetch_many init_options 1104 ex_start_44k)))
       = replicate 1104 True"
proof -
  note r = run_inv [OF ex_start_44k_init ex_file_ok(5,6) first_tick]
  have W: "rms_window_len ex_start_44k = 2205"
    using r(3) by (simp add: ex_file_44k_def)
  have ra: "ra_frame_cnt ex_start_44k = 1103"
    using r(5) W by simp
  have inf: "in_file ex_start_44k = []"
    using init_state_in_file [OF ex_start_44k_init]
    by (simp add: init_options_def ex_file_44k_def)
  have ne: "\<not> in_eof ex_start_44k"
    using init_state_read [OF ex_start_44k_init] by simp
  have fr: "frames_remaining ex_start_44k = SF_COUNT_MAX"
    using init_state_range [OF ex_start_44k_init] by (simp add: init_options_def)
  from fetch_next_frame_pad [of ex_start_44k init_options] inf r(1) obtain s1 where
    f: "fetch_next_frame init_options ex_start_44k = Inr (True, s1)"
    and s1: "in_eof s1" "ring_inv s1" "frames_remaining s1 = 1103"
    using ne fr ra by (auto simp: SF_COUNT_MAX_def)
  from fetch_many_eof [OF s1(1,2), of init_options 1103] obtain s' where
    m: "fetch_many init_options 1103 s1
       = Inr (map (\<lambda>k. (int k < 1103, replicate (numchannels s1) 0)) [0..<1103], s')"
    using s1(3) by auto
  have h: "map fst (map (\<lambda>k. (int k < 1103, replicate (numchannels s1) (0::real))) [0..<1103])
      = replicate 1103 True"
    using map_less_replicate [of 1103 1103] by (simp add: comp_def)
  have fm: "fetch_many init_options (Suc 1103) ex_start_44k
      = Inr ((True, source_frame ex_start_44k)
             # map (\<lambda>k. (int k < 1103, replicate (numchannels s1) 0)) [0..<1103], s')"
    by (simp only: fetch_many.simps f m sum.case prod.case)
  have n: "(1104::nat) = Suc 1103" by simp
  have "map fst (fst (projr (fetch_many init_options (Suc 1103) ex_start_44k)))
      = True # replicate 1103 True"
    unfolding fm using h by simp
  also have "\<dots> = replicate (Suc 1103) True"
    by (simp only: replicate.simps)
  finally have "map fst (fst (projr (fetch_many init_options 1104 ex_start_44k)))
      = replicate 1104 True"
    unfolding n .
  with W inf ne show ?thesis by simp
qed

text \<open>
  Claim C5, amended. In a run with \<open>W \<ge> 1\<close> and at most 8 channels, let a call of the
  frame source meet the end of the file (the end of the file has not been seen, frames
  remain in the range, the codec has no more frames). That call returns true, and of
  the calls after it exactly the first \<open>min (frames_remaining - 1) (W - W / 2)\<close> return
  true and all later ones return false; every one of these calls delivers a frame of
  zeros. The read-ahead count \<open>W - W / 2\<close> is \<open>W / 2\<close> only when \<open>W\<close> is even.
\<close>

theorem eof_drain:
  assumes "init_state opts sf names = Inr s0" "20 \<le> sf_samplerate sf"
    "sf_channels sf \<le> MAX_CHANNELS" "cutter_ticks opts s0 s"
    "\<not> in_eof s" "0 < frames_remaining s" "in_file s = []"
  shows "\<exists>s'. fetch_many opts (Suc n) s
     = Inr ((True, replicate (numchannels s) 0)
            # map (\<lambda>k. (int k < min (frames_remaining s - 1)
                                     (int (rms_window_len s - rms_window_len s div 2)),
                          replicate (numchannels s) 0)) [0..<n], s')"
proof -
  note r = run_inv [OF assms(1-4)]
  from fetch_next_frame_pad [of s opts] assms(5-7) r(1) obtain s1 where
    f: "fetch_next_frame opts s = Inr (True, s1)"
    and s1: "in_eof s1" "ring_inv s1" "numchannels s1 = numchannels s"
      "frames_remaining s1 = min (frames_remaining s - 1) (ra_frame_cnt s)"
      "source_frame s = replicate (numchannels s) 0"
    by auto
  from fetch_many_eof [OF s1(1,2), of opts n] obtain s' where
    "fetch_many opts n s1
       = Inr (map (\<lambda>k. (int k < frames_remaining s1, replicate (numchannels s1) 0)) [0..<n], s')"
    by blast
  with f s1 r(5) show ?thesis by simp
qed

theorem eof_drain_witness:
  "\<not> in_eof ex_start_44k \<and> 0 < frames_remaining ex_start_44k \<and> in_file ex_start_44k = []
   \<and> map fst (fst (projr (fetch_many init_options (Suc 2) ex_start_44k))) = [True, True, True]"
proof -
  note r = run_inv [OF ex_start_44k_init ex_file_ok(5,6) first_tick]
  have W: "rms_window_len ex_start_44k = 2205"
    using r(3) by (simp add: ex_file_44k_def)
  have inf: "in_file ex_start_44k = []"
    using init_state_in_file [OF ex_start_44k_init]
    by (simp add: init_options_def ex_file_44k_def)
  have ne: "\<not> in_eof ex_start_44k"
    using init_state_read [OF ex_start_44k_init] by simp
  have fr: "frames_remaining ex_start_44k = SF_COUNT_MAX"
    using init_state_range [OF ex_start_44k_init] by (simp add: init_options_def)
  have pos: "0 < frames_remaining ex_start_44k"
    by (simp add: fr SF_COUNT_MAX_def)
  from eof_drain [OF ex_start_44k_init ex_file_ok(5,6) first_tick ne pos inf, of 2]
  obtain s' where "fetch_many init_options (Suc 2) ex_start_44k
     = Inr ((True, replicate (numchannels ex_start_44k) 0)
            # map (\<lambda>k. (int k < min (frames_remaining ex_start_44k - 1)
                   (int (rms_window_len ex_start_44k - rms_window_len ex_start_44k div 2)),
                          replicate (numchannels ex_start_44k) 0)) [0..<2], s')"
    by blast
  then have "map fst (fst (projr (fetch_many init_options (Suc 2) ex_start_44k)))
      = [True, True, True]"
    by (simp only: W fr) (simp add: SF_COUNT_MAX_def upt_rec)
  with ne pos inf show ?thesis by blast
qed

section \<open>The loop as a whole\<close>

lemma cutter_do_rule:
  assumes "cutter_do opts s = Inr s'" "P s"
    and "\<And>s b s1. P s \<Longrightarrow> fetch_next_frame opts (update_context opts s) = Inr (b, s1) \<Longrightarrow> P s1"
  shows "P s'"
  using assms
proof (induction opts s rule: cutter_do.induct)
  case (1 opts s)
  from "1.prems"(1) obtain b s1 where
    f: "fetch_next_frame opts (update_context opts s) = Inr (b, s1)"
    by (subst (asm) cutter_do.simps) (auto split: sum.splits)
  have P1: "P s1" using "1.prems"(2,3) f by blast
  show ?case
  proof (cases "b \<and> cur_track_num s1 \<le> track_num_end opts")
    case True
    then have "cutter_do opts s1 = Inr s'"
      using "1.prems"(1) f by (subst (asm) cutter_do.simps) simp
    from "1.IH" [OF f refl True this P1 "1.prems"(3)] show ?thesis by simp
  next
    case False
    then have "s' = s1"
      using "1.prems"(1) f by (subst (asm) cutter_do.simps) auto
    with P1 show ?thesis by simp
  qed
qed

lemma sf_readf_double_one:
  assumes "ReadFault \<notin> set items"
  shows "sf_readf_double items 1
     = Some (case items of [] \<Rightarrow> [] | Frame f # r \<Rightarrow> [f], tl items)"
proof (cases items)
  case Nil
  then show ?thesis by simp
next
  case (Cons x r)
  with assms obtain f where "x = Frame f" by (cases x) auto
  with Cons show ?thesis by simp
qed

lemma fetch_next_frame_succeeds:
  assumes "ReadFault \<notin> set (in_file s)"
  shows "\<exists>b s'. fetch_next_frame opts s = Inr (b, s') \<and> ReadFault \<notin> set (in_file s')"
proof -
  have "\<exists>eof s1. fetch_source s = Inr (eof, s1) \<and> ReadFault \<notin> set (in_file s1)"
    using assms sf_readf_double_one [OF assms]
    by (auto simp: fetch_source_def Let_def split: list.splits rd_item.splits dest: list.set_sel(2))
  then obtain eof s1 where "fetch_source s = Inr (eof, s1)" "ReadFault \<notin> set (in_file s1)"
    by blast
  then show ?thesis
    by (simp add: fetch_next_frame_def Let_def)
qed

lemma cutter_do_succeeds:
  "ReadFault \<notin> set (in_file s) \<Longrightarrow> \<exists>s'. cutter_do opts s = Inr s'"
proof (induction opts s rule: cutter_do.induct)
  case (1 opts s)
  have "ReadFault \<notin> set (in_file (update_context opts s))"
    using "1.prems" by simp
  from fetch_next_frame_succeeds [OF this, of opts] obtain b s1 where
    f: "fetch_next_frame opts (update_context opts s) = Inr (b, s1)"
    and ok: "ReadFault \<notin> set (in_file s1)"
    by blast
  show ?case
  proof (cases "b \<and> cur_track_num s1 \<le> track_num_end opts")
    case True
    from "1.IH" [OF f refl True ok] obtain s' where "cutter_do opts s1 = Inr s'" by blast
    with True f show ?thesis by (subst cutter_do.simps) simp
  next
    case False
    with f show ?thesis by (subst cutter_do.simps) auto
  qed
qed

text \<open>A run on a recording without read faults, from its start, returns.\<close>

lemma main_cutting_succeeds:
  assumes "0 < sf_channels sf" "\<not> time_range_given opts" "start_frame_idx opts = 0"
    "ReadFault \<notin> set (sf_items sf)"
  shows "\<exists>s0 s'. init_state opts sf names = Inr s0 \<and> cutter_loop opts s0 = Inr s'
           \<and> main_cutting opts sf names = Inr s'"
proof -
  from init_state_succeeds [OF assms] obtain s0 where i: "init_state opts sf names = Inr s0"
    by blast
  have "in_file s0 = drop (nat (ra_frame_cnt s0)) (sf_items sf)"
    using init_state_in_file [OF i assms(2-4)] .
  then have "ReadFault \<notin> set (in_file s0)"
    using assms(4) by (auto dest: in_set_dropD)
  from cutter_do_succeeds [OF this, of opts] obtain s1 where "cutter_do opts s0 = Inr s1"
    by blast
  with i show ?thesis by (simp add: main_cutting_def cutter_loop_def)
qed

section \<open>The state machine over a run\<close>

lemma init_state_seg:
  assumes "init_state opts sf names = Inr s0" "task opts = TCT_CUTTING"
  shows "cut_context s0 = CCTX_SILENCE" "\<not> out_file s0" "leadin_buf_end s0 = 0"
    "sink s0 = (if cut_point_action opts = CPA_LOG_POINT \<and> \<not> no_cuts_file_header opts
                then [CutHeader] else [])"
    "cuts_file s0 = (cut_point_action opts = CPA_LOG_POINT)"
    "cut_point_action opts = CPA_EXTRACT_TRACK
       \<Longrightarrow> leadin_buf_edge s0 = numchannels s0 * nat (min_signal_len s0)"
    "0 < numchannels s0"
proof -
  from assms(1) obtain s1 fs rest where
    op: "open_input_file opts sf (zero_state\<lparr>cur_track_num := 1\<rparr>) = Inr s1"
    and C0: "0 < numchannels s1"
    and s0: "s0 = (if task opts = TCT_CUTTING
           then init_cutting opts names
                  (init_pointers (prime_buffers opts (init_leading fs rest (init_rings s1))))
           else init_pointers (prime_buffers opts (init_leading fs rest (init_rings s1))))"
    by (rule init_state_cases)
  from open_input_file_result [OF op] obtain items start len where
    s1: "s1 = zero_state\<lparr>cur_track_num := 1, in_file := items, samplerate := sf_samplerate sf,
                  numchannels := sf_channels sf, cur_frame_pos := start,
                  frames_remaining := len\<rparr>"
    by auto
  define sb where "sb = init_leading fs rest (init_rings s1)"
  define sd where "sd = init_pointers (prime_buffers opts sb)"
  have keep: "prime_keep (prime_buffers opts sb) = prime_keep sb"
    by (rule prime_buffers_keep)
  have sb: "cut_context sb = CCTX_SILENCE" "\<not> out_file sb" "leadin_buf_end sb = 0"
    "sink sb = []" "\<not> cuts_file sb" "numchannels sb = numchannels s1"
    by (simp_all add: sb_def init_leading_def init_rings_def Let_def s1 zero_state_def)
  have sd: "cut_context sd = CCTX_SILENCE" "\<not> out_file sd" "leadin_buf_end sd = 0"
    "sink sd = []" "\<not> cuts_file sd" "numchannels sd = numchannels s1"
    using keep sb by (simp_all add: sd_def init_pointers_def prime_keep_def seg_part_def)
  have s0': "s0 = init_cutting opts names sd"
    using assms(2) by (simp add: s0 sd_def sb_def)
  show "cut_context s0 = CCTX_SILENCE" "\<not> out_file s0" "leadin_buf_end s0 = 0"
    "sink s0 = (if cut_point_action opts = CPA_LOG_POINT \<and> \<not> no_cuts_file_header opts
                then [CutHeader] else [])"
    "cuts_file s0 = (cut_point_action opts = CPA_LOG_POINT)"
    "0 < numchannels s0"
    using sd C0
    by (simp_all add: s0' init_cutting_def Let_def open_track_names_file_def
        create_cuts_file_def print_cuts_header_def split: option.split prod.split)
  show "leadin_buf_edge s0 = numchannels s0 * nat (min_signal_len s0)"
    if "cut_point_action opts = CPA_EXTRACT_TRACK"
    using that
    by (simp add: s0' init_cutting_def Let_def open_track_names_file_def
        create_cuts_file_def print_cuts_header_def split: option.split prod.split)
qed

lemmas seg_eval = update_context_def leadin_buf_add_def leadin_buf_purge_def
  leadin_buf_commit_def fetch_next_track_name_def create_new_out_file_def
  commit_current_frame_def force_end_of_track_def close_out_file_def print_track_cut_def
  Let_def

text \<open>The counter and the track ends move together in every tick.\<close>

definition out_inv :: "options \<Rightarrow> state \<Rightarrow> bool" where
  "out_inv opts s \<longleftrightarrow>
     (cut_point_action opts = CPA_LOG_POINT \<longrightarrow> cuts_file s) \<and>
     (cut_point_action opts = CPA_EXTRACT_TRACK \<longrightarrow>
        (out_file s \<longleftrightarrow> cut_context s = CCTX_TRACK \<or> cut_context s = CCTX_TRACK_ENDING))"

lemma track_ends_append [simp]:
  "track_ends (xs @ ys) = track_ends xs + track_ends ys"
  by (simp add: track_ends_def)

lemma track_ends_simps [simp]:
  "track_ends [] = 0" "track_ends (e # es) = (if is_track_end e then 1 else 0) + track_ends es"
  by (simp_all add: track_ends_def)

lemma update_context_out_inv:
  assumes "out_inv opts s"
  shows "out_inv opts (update_context opts s)"
    "int (track_ends (sink (update_context opts s))) - cur_track_num (update_context opts s)
       = int (track_ends (sink s)) - cur_track_num s"
  using assms
  by (cases "cut_point_action opts"; cases "cut_context s";
      simp add: out_inv_def seg_eval split: option.split list.split)+

lemma fetch_out_inv:
  assumes "fetch_next_frame opts s = Inr (b, s1)"
  shows "out_inv opts s1 = out_inv opts s" "sink s1 = sink s" "cur_track_num s1 = cur_track_num s"
  using fetch_next_frame_seg [OF assms] by (simp_all add: out_inv_def)

lemma cutter_do_track_ends:
  assumes "cutter_do opts s0 = Inr s1" "out_inv opts s0"
  shows "out_inv opts s1
       \<and> int (track_ends (sink s1)) - cur_track_num s1
           = int (track_ends (sink s0)) - cur_track_num s0"
proof (rule cutter_do_rule [OF assms(1)])
  show "out_inv opts s0
       \<and> int (track_ends (sink s0)) - cur_track_num s0
           = int (track_ends (sink s0)) - cur_track_num s0"
    using assms(2) by simp
next
  fix s b s1
  assume P: "out_inv opts s
       \<and> int (track_ends (sink s)) - cur_track_num s
           = int (track_ends (sink s0)) - cur_track_num s0"
    and f: "fetch_next_frame opts (update_context opts s) = Inr (b, s1)"
  from P update_context_out_inv [of opts s] fetch_out_inv [OF f]
  show "out_inv opts s1
       \<and> int (track_ends (sink s1)) - cur_track_num s1
           = int (track_ends (sink s0)) - cur_track_num s0"
    by simp
qed

lemma force_end_of_track_ends:
  assumes "out_inv opts s"
  shows "track_ends (sink (force_end_of_track opts s))
       = track_ends (sink s)
         + (if cut_context s = CCTX_TRACK \<or> cut_context s = CCTX_TRACK_ENDING then 1 else 0)"
    "cur_track_num (force_end_of_track opts s) = cur_track_num s"
    "cut_context (force_end_of_track opts s) = cut_context s"
    "frames_remaining (force_end_of_track opts s) = frames_remaining s"
  using assms
  by (cases "cut_point_action opts";
      simp add: out_inv_def seg_eval split: option.split)+

lemma ex_consts:
  "noise_floor_level (- 20) = 1 / 10"
  "0 \<le> a \<Longrightarrow> 0 < b \<Longrightarrow> c_div a b = a div b"
  "store_frame buf p [x] = buf[p := x]"
  by (simp_all add: noise_floor_level_eq powr_minus c_div_def sgn_if store_frame_def)

lemmas tick_eval = update_context_def fetch_next_frame_def fetch_source_def advance_buf_ptrs_def
  filter_new_frame_def filter_channel_def we_have_signal_iff leadin_buf_add_def
  leadin_buf_purge_def fetch_next_track_name_def commit_current_frame_def Let_def
  ex_consts init_options_def INT_MAX_def

lemma ex_run:
  "\<exists>s. main_cutting ex_opts ex_file None = Inr s
     \<and> sink s = [CutHeader, CutRow 1 0 4 []] \<and> cur_track_num s = 1
     \<and> cut_context s = CCTX_TRACK \<and> frames_remaining s = 0 \<and> cur_frame_pos s = 4
     \<and> cur_track_start s = 0 \<and> min_track_len s = 20"
  apply (simp add: main_cutting_def init_state_def ex_opts_def ex_file_def init_options_def
      open_input_file_def zero_state_def init_rings_def init_leading_def
      RMS_WINDOW_PERIOD_def MAX_CHANNELS_def SF_COUNT_MAX_def INT_MAX_def Let_def ex_consts)
  apply (subst prime_buffers.simps)
  apply (simp add: filter_new_frame_def filter_channel_def Let_def)
  apply (subst prime_buffers.simps)
  apply (simp add: init_pointers_def init_cutting_def Let_def ex_consts
      create_cuts_file_def print_cuts_header_def cutter_loop_def)
  apply (subst cutter_do.simps)
  apply (simp add: tick_eval)
  apply (subst cutter_do.simps)
  apply (simp add: tick_eval)
  apply (subst cutter_do.simps)
  apply (simp add: tick_eval)
  apply (subst cutter_do.simps)
  apply (simp add: tick_eval force_end_of_track_def print_track_cut_def)
  done

lemma ex_final_fields:
  "main_cutting ex_opts ex_file None = Inr ex_final"
  "sink ex_final = [CutHeader, CutRow 1 0 4 []]" "cur_track_num ex_final = 1"
  "cut_context ex_final = CCTX_TRACK" "frames_remaining ex_final = 0"
  "cur_frame_pos ex_final = 4" "cur_track_start ex_final = 0" "min_track_len ex_final = 20"
  using ex_run by (auto simp: ex_final_def)

lemma ex_start_loop: "cutter_loop ex_opts ex_start = Inr ex_final"
  using ex_final_fields(1) ex_start_init by (simp add: main_cutting_def)

lemma ex_start_num: "cur_track_num ex_start = 1"
proof -
  from ex_start_init obtain s1 fs rest where
    op: "open_input_file ex_opts ex_file (zero_state\<lparr>cur_track_num := 1\<rparr>) = Inr s1"
    and s0: "ex_start = (if task ex_opts = TCT_CUTTING
           then init_cutting ex_opts None
                  (init_pointers (prime_buffers ex_opts (init_leading fs rest (init_rings s1))))
           else init_pointers (prime_buffers ex_opts (init_leading fs rest (init_rings s1))))"
    by (rule init_state_cases)
  from open_input_file_result [OF op] have "cur_track_num s1 = 1"
    by auto
  moreover have "prime_keep (prime_buffers ex_opts (init_leading fs rest (init_rings s1)))
      = prime_keep (init_leading fs rest (init_rings s1))"
    by (rule prime_buffers_keep)
  ultimately show ?thesis
    by (simp add: s0 ex_opts_def init_options_def init_cutting_def Let_def create_cuts_file_def
        print_cuts_header_def init_pointers_def prime_keep_def seg_part_def init_leading_def
        init_rings_def)
qed

text \<open>
  Claim C1, as stated, has the counter incremented for a track that the end of the input
  ends. On \<open>ex_file\<close> (two loud frames at 20 Hz) one track begins; the loop leaves it in
  \<open>CCTX_TRACK\<close> when the input is exhausted, \<open>force_end_of_track\<close> writes its row to the
  cut sheet, and \<open>cur_track_num\<close> is still 1, the value it started with.
\<close>

theorem eof_end_keeps_track_num:
  "cutter_loop ex_opts ex_start = Inr ex_final
   \<and> track_ends (sink ex_final) = 1 \<and> track_ends (sink ex_start) = 0
   \<and> cur_track_num ex_start = 1 \<and> cur_track_num ex_final = 1"
proof -
  have "task ex_opts = TCT_CUTTING" by (simp add: ex_opts_def init_options_def)
  from init_state_seg(4) [OF ex_start_init this] have "track_ends (sink ex_start) = 0"
    by simp
  then show ?thesis
    using ex_start_loop ex_start_num by (simp add: ex_final_fields)
qed

text \<open>
  Claim C1, amended. Over a run of the cutter, \<open>cur_track_num\<close> grows by exactly the
  number of track ends that \<^verbatim>\<open>update_context\<close> confirms (the dwell of \<open>min_silence_len\<close>
  expiring). The \<open>force_end_of_track\<close> at the exit of the loop, issued when no frames
  remain, ends a track that is still in \<open>CCTX_TRACK\<close> or \<open>CCTX_TRACK_ENDING\<close> and
  leaves \<open>cur_track_num\<close> as it is: the number of track ends is then one more than
  the growth of the counter.
\<close>

theorem track_num_counts_confirmed_ends:
  assumes "init_state opts sf names = Inr s0" "task opts = TCT_CUTTING"
    "cutter_do opts s0 = Inr s1" "cutter_loop opts s0 = Inr s'"
  shows "int (track_ends (sink s1)) = cur_track_num s1 - cur_track_num s0
       \<and> cur_track_num s' = cur_track_num s1
       \<and> int (track_ends (sink s'))
           = cur_track_num s' - cur_track_num s0
             + (if frames_remaining s1 = 0
                   \<and> (cut_context s1 = CCTX_TRACK \<or> cut_context s1 = CCTX_TRACK_ENDING)
                then 1 else 0)"
proof -
  note i = init_state_seg [OF assms(1,2)]
  have o0: "out_inv opts s0"
    using i by (cases "cut_point_action opts") (simp_all add: out_inv_def)
  have e0: "track_ends (sink s0) = 0" using i(4) by simp
  from cutter_do_track_ends [OF assms(3) o0] e0
  have o1: "out_inv opts s1"
    and c1: "int (track_ends (sink s1)) = cur_track_num s1 - cur_track_num s0"
    by simp_all
  have s': "s' = (if frames_remaining s1 = 0 then force_end_of_track opts s1 else s1)"
    using assms(3,4) by (simp add: cutter_loop_def)
  show ?thesis
    using c1 force_end_of_track_ends [OF o1] by (simp add: s')
qed

theorem track_num_counts_confirmed_ends_witness:
  "int (track_ends (sink (projr (cutter_do ex_opts ex_start))))
     = cur_track_num (projr (cutter_do ex_opts ex_start)) - cur_track_num ex_start
   \<and> cur_track_num ex_final = cur_track_num (projr (cutter_do ex_opts ex_start))
   \<and> int (track_ends (sink ex_final))
       = cur_track_num ex_final - cur_track_num ex_start
         + (if frames_remaining (projr (cutter_do ex_opts ex_start)) = 0
               \<and> (cut_context (projr (cutter_do ex_opts ex_start)) = CCTX_TRACK
                  \<or> cut_context (projr (cutter_do ex_opts ex_start)) = CCTX_TRACK_ENDING)
            then 1 else 0)"
proof -
  have t: "task ex_opts = TCT_CUTTING" by (simp add: ex_opts_def init_options_def)
  have "\<exists>s1. cutter_do ex_opts ex_start = Inr s1"
    using ex_start_loop by (auto simp: cutter_loop_def split: sum.splits)
  then have d: "cutter_do ex_opts ex_start = Inr (projr (cutter_do ex_opts ex_start))"
    by auto
  from track_num_counts_confirmed_ends [OF ex_start_init t d ex_start_loop]
  show ?thesis .
qed

section \<open>The minimum track length\<close>

definition lock_inv :: "state \<Rightarrow> bool" where
  "lock_inv s \<longleftrightarrow>
     (cut_context s = CCTX_TRACK_ENDING \<longrightarrow>
        cur_track_start s + min_track_len s \<le> cur_frame_pos s) \<and>
     (\<forall>n a b nm. CutRow n a b nm \<in> set (sink s) \<longrightarrow> a + min_track_len s \<le> b)"

lemma we_have_signal_sink [simp]: "we_have_signal (s\<lparr>sink := x\<rparr>) = we_have_signal s"
  by (simp add: we_have_signal_iff)

lemma update_context_lock_inv:
  assumes "lock_inv s"
  shows "lock_inv (update_context opts s)"
  using assms
  by (cases "cut_point_action opts"; cases "cut_context s";
      auto simp: lock_inv_def seg_eval split: option.split list.split)

lemma update_context_end_locked:
  assumes "lock_inv s" "track_ends (sink (update_context opts s)) \<noteq> track_ends (sink s)"
  shows "cut_context s = CCTX_TRACK_ENDING \<and> \<not> we_have_signal s \<and> \<not> 0 < time_to_live s
       \<and> cur_track_start s + min_track_len s \<le> cur_frame_pos s"
proof -
  have "cut_context s = CCTX_TRACK_ENDING \<and> \<not> we_have_signal s \<and> \<not> 0 < time_to_live s"
    using assms(2)
    by (cases "cut_point_action opts"; cases "cut_context s";
        auto simp: seg_eval split: option.splits list.splits if_splits)
  with assms(1) show ?thesis by (simp add: lock_inv_def)
qed

lemma fetch_lock_inv:
  assumes "fetch_next_frame opts s = Inr (b, s1)" "lock_inv s"
  shows "lock_inv s1"
  using fetch_next_frame_seg [OF assms(1)] fetch_next_frame_pos [OF assms(1)] assms(2)
  by (auto simp: lock_inv_def)

lemma cutter_ticks_lock_inv:
  assumes "cutter_ticks opts s0 s" "lock_inv s0"
  shows "lock_inv s"
  using assms
proof (induction rule: cutter_ticks.induct)
  case first_tick
  then show ?case by simp
next
  case (next_tick s s')
  then show ?case
    using fetch_lock_inv update_context_lock_inv by blast
qed

lemma cutter_do_lock_inv:
  assumes "cutter_do opts s0 = Inr s1" "lock_inv s0"
  shows "lock_inv s1"
  by (rule cutter_do_rule [OF assms(1), of lock_inv, OF assms(2)])
     (use fetch_lock_inv update_context_lock_inv in blast)

text \<open>
  Claim C8, as stated, lets no track end before \<open>cur_track_start + min_track_len\<close>, on
  any input. On \<open>ex_file\<close> the minimum track length is 20 frames; the track starts at
  frame 0 and the cut sheet ends it at frame 4, when the input is exhausted.
\<close>

theorem eof_end_before_min_track_len:
  "main_cutting ex_opts ex_file None = Inr ex_final
   \<and> sink ex_final = [CutHeader, CutRow 1 0 4 []]
   \<and> cur_track_start ex_final = 0 \<and> min_track_len ex_final = 20 \<and> cur_frame_pos ex_final = 4
   \<and> \<not> (cur_track_start ex_final + min_track_len ex_final \<le> cur_frame_pos ex_final)"
  by (simp add: ex_final_fields)

text \<open>
  Claim C8, amended. No track is ended by \<^verbatim>\<open>update_context\<close> before
  \<open>cur_track_start + min_track_len\<close>: in a run, a tick that emits a track end (a row
  of the cut sheet or the closing of a track file) is a tick in \<open>CCTX_TRACK_ENDING\<close> at
  a position of at least \<open>cur_track_start + min_track_len\<close>, and every row that the
  loop has written spans at least \<open>min_track_len\<close> frames. The forced end at the exit
  of the loop, when the input is exhausted, is not bound by the minimum track length.
\<close>

theorem lockout_within_loop:
  assumes "init_state opts sf names = Inr s0" "task opts = TCT_CUTTING"
  shows "(cutter_ticks opts s0 s
            \<and> track_ends (sink (update_context opts s)) \<noteq> track_ends (sink s)
          \<longrightarrow> cut_context s = CCTX_TRACK_ENDING
              \<and> cur_track_start s + min_track_len s \<le> cur_frame_pos s)
       \<and> (cutter_do opts s0 = Inr s1
          \<longrightarrow> (\<forall>n a b nm. CutRow n a b nm \<in> set (sink s1) \<longrightarrow> a + min_track_len s1 \<le> b))"
proof -
  note i = init_state_seg [OF assms]
  have l0: "lock_inv s0"
    using i(1,4) by (simp add: lock_inv_def)
  show ?thesis
    using cutter_ticks_lock_inv [OF _ l0] update_context_end_locked [of s opts]
      cutter_do_lock_inv [OF _ l0, of opts s1]
    by (auto simp: lock_inv_def)
qed

section \<open>Example runs: a track that ends inside the loop\<close>

lemma ex_long_run:
  "\<exists>s0 s. init_state ex_opts ex_file_long None = Inr s0 \<and> cutter_do ex_opts s0 = Inr s
     \<and> sink s = [CutHeader, CutRow 1 0 22 []] \<and> cur_track_num s = 2
     \<and> min_track_len s = 20"
  apply (simp add: init_state_def ex_opts_def ex_file_long_def init_options_def
      open_input_file_def zero_state_def init_rings_def init_leading_def
      RMS_WINDOW_PERIOD_def MAX_CHANNELS_def SF_COUNT_MAX_def INT_MAX_def Let_def ex_consts
      ex_alpha_def [symmetric])
  apply (subst prime_buffers.simps)
  apply (simp add: filter_new_frame_def filter_channel_def Let_def)
  apply (subst prime_buffers.simps)
  apply (simp add: init_pointers_def init_cutting_def Let_def ex_consts
      create_cuts_file_def print_cuts_header_def)
  apply (subst cutter_do.simps)
  apply (simp add: tick_eval force_end_of_track_def print_track_cut_def)
  apply (subst cutter_do.simps)
  apply (simp add: tick_eval force_end_of_track_def print_track_cut_def)
  apply (subst cutter_do.simps)
  apply (simp add: tick_eval force_end_of_track_def print_track_cut_def)
  apply (subst cutter_do.simps)
  apply (simp add: tick_eval force_end_of_track_def print_track_cut_def)
  apply (subst cutter_do.simps)
  apply (simp add: tick_eval force_end_of_track_def print_track_cut_def)
  apply (subst cutter_do.simps)
  apply (simp add: tick_eval force_end_of_track_def print_track_cut_def)
  apply (subst cutter_do.simps)
  apply (simp add: tick_eval force_end_of_track_def print_track_cut_def)
  apply (subst cutter_do.simps)
  apply (simp add: tick_eval force_end_of_track_def print_track_cut_def)
  apply (subst cutter_do.simps)
  apply (simp add: tick_eval force_end_of_track_def print_track_cut_def)
  apply (subst cutter_do.simps)
  apply (simp add: tick_eval force_end_of_track_def print_track_cut_def)
  apply (subst cutter_do.simps)
  apply (simp add: tick_eval force_end_of_track_def print_track_cut_def)
  apply (subst cutter_do.simps)
  apply (simp add: tick_eval force_end_of_track_def print_track_cut_def)
  apply (subst cutter_do.simps)
  apply (simp add: tick_eval force_end_of_track_def print_track_cut_def)
  apply (subst cutter_do.simps)
  apply (simp add: tick_eval force_end_of_track_def print_track_cut_def)
  apply (subst cutter_do.simps)
  apply (simp add: tick_eval force_end_of_track_def print_track_cut_def)
  apply (subst cutter_do.simps)
  apply (simp add: tick_eval force_end_of_track_def print_track_cut_def)
  apply (subst cutter_do.simps)
  apply (simp add: tick_eval force_end_of_track_def print_track_cut_def)
  apply (subst cutter_do.simps)
  apply (simp add: tick_eval force_end_of_track_def print_track_cut_def)
  apply (subst cutter_do.simps)
  apply (simp add: tick_eval force_end_of_track_def print_track_cut_def)
  apply (subst cutter_do.simps)
  apply (simp add: tick_eval force_end_of_track_def print_track_cut_def)
  apply (subst cutter_do.simps)
  apply (simp add: tick_eval force_end_of_track_def print_track_cut_def)
  apply (subst cutter_do.simps)
  apply (simp add: tick_eval force_end_of_track_def print_track_cut_def)
  apply (subst cutter_do.simps)
  apply (simp add: tick_eval force_end_of_track_def print_track_cut_def)
  apply (subst cutter_do.simps)
  apply (simp add: tick_eval force_end_of_track_def print_track_cut_def)
  done

lemma ex_long_fields:
  "init_state ex_opts ex_file_long None = Inr ex_start_long"
  "cutter_do ex_opts ex_start_long = Inr ex_loop_long"
  "sink ex_loop_long = [CutHeader, CutRow 1 0 22 []]" "cur_track_num ex_loop_long = 2"
  "min_track_len ex_loop_long = 20"
  using ex_long_run by (auto simp: ex_start_long_def ex_loop_long_def)

text \<open>
  On \<open>ex_file_long\<close>, two frames of signal and a second of silence at 20 frames per
  second, the loop itself ends the track: the row of the cut sheet spans frames 0 to
  22, and the minimum track length is 20 frames.
\<close>

theorem lockout_within_loop_witness:
  "CutRow 1 0 22 [] \<in> set (sink ex_loop_long) \<and> min_track_len ex_loop_long = 20
   \<and> 0 + min_track_len ex_loop_long \<le> 22"
proof -
  have t: "task ex_opts = TCT_CUTTING" by (simp add: ex_opts_def init_options_def)
  have m: "CutRow 1 0 22 [] \<in> set (sink ex_loop_long)"
    by (simp add: ex_long_fields)
  from lockout_within_loop [OF ex_long_fields(1) t, of ex_start_long ex_loop_long]
    ex_long_fields(2) m
  have "0 + min_track_len ex_loop_long \<le> 22" by blast
  with m show ?thesis by (simp add: ex_long_fields)
qed

section \<open>The lead-in buffer\<close>

definition leadin_inv :: "state \<Rightarrow> bool" where
  "leadin_inv s \<longleftrightarrow>
     0 < numchannels s \<and> 1 \<le> min_signal_len s \<and>
     leadin_buf_edge s = numchannels s * nat (min_signal_len s) \<and>
     (if cut_context s = CCTX_TRACK_STARTING
      then 0 \<le> time_to_live s \<and> time_to_live s < min_signal_len s \<and>
           leadin_buf_end s = numchannels s * nat (min_signal_len s - time_to_live s)
      else leadin_buf_end s = 0)"

lemma leadin_room:
  fixes C :: nat and m t :: int
  assumes "0 < C" "0 < t" "t < m"
  shows "C * nat (m - t) < C * nat m \<and> C * nat (m - t) + C = C * nat (m - (t - 1))"
proof -
  have "nat (m - t) < nat m" using assms by simp
  then have a: "C * nat (m - t) < C * nat m" using assms by simp
  have "nat (m - (t - 1)) = Suc (nat (m - t))" using assms by simp
  then have "C * nat (m - t) + C = C * nat (m - (t - 1))" by simp
  with a show ?thesis by simp
qed

lemma update_context_leadin_inv:
  assumes "cut_point_action opts = CPA_EXTRACT_TRACK" "leadin_inv s"
  shows "leadin_inv (update_context opts s) \<and>
    (LeadinOverflow \<in> set (sink (update_context opts s)) \<longrightarrow> LeadinOverflow \<in> set (sink s))"
proof -
  have C: "0 < numchannels s" and m: "1 \<le> min_signal_len s"
    and edge: "leadin_buf_edge s = numchannels s * nat (min_signal_len s)"
    using assms(2) by (simp_all add: leadin_inv_def)
  have pos: "0 < numchannels s * nat (min_signal_len s)"
    using C m by simp
  show ?thesis
  proof (cases "cut_context s")
    case CCTX_SILENCE
    with assms C m edge pos show ?thesis
      by (simp add: leadin_inv_def seg_eval)
  next
    case CCTX_TRACK
    with assms show ?thesis
      by (simp add: leadin_inv_def seg_eval)
  next
    case CCTX_TRACK_ENDING
    with assms show ?thesis
      by (simp add: leadin_inv_def seg_eval split: option.split)
  next
    case CCTX_TRACK_STARTING
    with assms(2) have st: "0 \<le> time_to_live s" "time_to_live s < min_signal_len s"
      "leadin_buf_end s = numchannels s * nat (min_signal_len s - time_to_live s)"
      by (simp_all add: leadin_inv_def)
    show ?thesis
    proof (cases "we_have_signal s \<and> 0 < time_to_live s")
      case True
      then have "0 < time_to_live s" by simp
      note r = leadin_room [OF C this st(2)]
      from True CCTX_TRACK_STARTING assms(1) C m edge st r show ?thesis
        by (simp add: leadin_inv_def seg_eval)
    next
      case False
      with CCTX_TRACK_STARTING assms(1) C m edge show ?thesis
        by (auto simp: leadin_inv_def seg_eval split: option.split list.split)
    qed
  qed
qed

lemma update_context_log_no_overflow:
  assumes "cut_point_action opts = CPA_LOG_POINT"
  shows "LeadinOverflow \<in> set (sink (update_context opts s)) \<longrightarrow> LeadinOverflow \<in> set (sink s)"
  using assms
  by (cases "cut_context s") (auto simp: seg_eval split: option.split list.split)

lemma fetch_leadin_inv:
  assumes "fetch_next_frame opts s = Inr (b, s1)"
  shows "leadin_inv s1 = leadin_inv s" "sink s1 = sink s"
  using fetch_next_frame_seg [OF assms] by (simp_all add: leadin_inv_def)

lemma force_end_of_track_no_overflow:
  "LeadinOverflow \<in> set (sink (force_end_of_track opts s)) \<longrightarrow> LeadinOverflow \<in> set (sink s)"
  by (cases "cut_point_action opts") (auto simp: seg_eval split: option.split)


definition leadin_ok :: "options \<Rightarrow> state \<Rightarrow> bool" where
  "leadin_ok opts s \<longleftrightarrow>
     LeadinOverflow \<notin> set (sink s) \<and>
     (if cut_point_action opts = CPA_EXTRACT_TRACK then leadin_inv s else leadin_buf_end s = 0)"

lemma update_context_log_leadin:
  assumes "cut_point_action opts = CPA_LOG_POINT"
  shows "leadin_buf_end (update_context opts s) = leadin_buf_end s"
  using assms
  by (cases "cut_context s") (auto simp: seg_eval split: option.split list.split)

lemma update_context_leadin_ok:
  assumes "leadin_ok opts s"
  shows "leadin_ok opts (update_context opts s)"
proof (cases "cut_point_action opts")
  case CPA_LOG_POINT
  with assms update_context_log_no_overflow [OF CPA_LOG_POINT, of s]
    update_context_log_leadin [OF CPA_LOG_POINT, of s]
  show ?thesis by (simp add: leadin_ok_def)
next
  case CPA_EXTRACT_TRACK
  with assms update_context_leadin_inv [OF CPA_EXTRACT_TRACK, of s]
  show ?thesis by (simp add: leadin_ok_def)
qed

lemma fetch_leadin_ok:
  assumes "fetch_next_frame opts s = Inr (b, s1)"
  shows "leadin_ok opts s1 = leadin_ok opts s"
  using fetch_next_frame_seg [OF assms] by (simp add: leadin_ok_def leadin_inv_def)

lemma cutter_ticks_leadin_ok:
  assumes "cutter_ticks opts s0 s" "leadin_ok opts s0"
  shows "leadin_ok opts s"
  using assms
proof (induction rule: cutter_ticks.induct)
  case first_tick
  then show ?case by simp
next
  case (next_tick s s')
  then show ?case
    using fetch_leadin_ok update_context_leadin_ok by blast
qed

lemma cutter_do_leadin_ok:
  assumes "cutter_do opts s0 = Inr s1" "leadin_ok opts s0"
  shows "leadin_ok opts s1"
  by (rule cutter_do_rule [OF assms(1), of "leadin_ok opts", OF assms(2)])
     (use fetch_leadin_ok update_context_leadin_ok in blast)

lemma leadin_inv_room:
  assumes "leadin_inv s"
  shows "leadin_buf_end s \<le> leadin_buf_edge s"
proof (cases "cut_context s = CCTX_TRACK_STARTING")
  case True
  with assms have "0 \<le> time_to_live s" by (simp add: leadin_inv_def)
  then have "nat (min_signal_len s - time_to_live s) \<le> nat (min_signal_len s)"
    by (intro nat_mono) simp
  with assms True show ?thesis by (simp add: leadin_inv_def)
next
  case False
  with assms show ?thesis by (simp add: leadin_inv_def)
qed

lemma init_state_leadin_ok:
  assumes "init_state opts sf names = Inr s0" "task opts = TCT_CUTTING" "1 \<le> min_signal_len s0"
  shows "leadin_ok opts s0"
  using init_state_seg [OF assms(1,2)] assms(3)
  by (simp add: leadin_ok_def leadin_inv_def)

text \<open>
  Claim C10. Provided \<open>min_signal_len \<ge> 1\<close>, the lead-in buffer never overflows: at
  every tick of a run the end pointer of the buffer is within its capacity and
  \<^verbatim>\<open>update_context\<close> does not issue the overflow warning, and the finished run has
  not issued it. When \<open>min_signal_len = 0\<close>, in extraction mode, the buffer has no
  capacity: the tick that enters \<open>CCTX_TRACK_STARTING\<close> issues the warning and leaves
  the buffer as it was, the frame being dropped.
\<close>

theorem leadin_buf_never_overflows:
  assumes "init_state opts sf names = Inr s0" "task opts = TCT_CUTTING"
  shows "(1 \<le> min_signal_len s0 \<and> cutter_ticks opts s0 s
          \<longrightarrow> leadin_buf_end s \<le> leadin_buf_edge s
              \<and> LeadinOverflow \<notin> set (sink (update_context opts s)))
       \<and> (1 \<le> min_signal_len s0 \<and> cutter_loop opts s0 = Inr s'
          \<longrightarrow> LeadinOverflow \<notin> set (sink s'))
       \<and> (min_signal_len s0 = 0 \<and> cut_point_action opts = CPA_EXTRACT_TRACK
            \<and> cutter_ticks opts s0 s \<and> cut_context s = CCTX_SILENCE \<and> we_have_signal s
          \<longrightarrow> leadin_buf_edge s = 0
              \<and> cut_context (update_context opts s) = CCTX_TRACK_STARTING
              \<and> sink (update_context opts s) = sink s @ [LeadinOverflow]
              \<and> leadin_buf (update_context opts s) = leadin_buf s
              \<and> leadin_buf_end (update_context opts s) = leadin_buf_end s)"
proof -
  note i = init_state_seg [OF assms]
  have a: "leadin_buf_end s \<le> leadin_buf_edge s
      \<and> LeadinOverflow \<notin> set (sink (update_context opts s))"
    if m: "1 \<le> min_signal_len s0" and t: "cutter_ticks opts s0 s"
  proof -
    have ok: "leadin_ok opts s"
      using cutter_ticks_leadin_ok [OF t init_state_leadin_ok [OF assms m]] .
    have "leadin_buf_end s \<le> leadin_buf_edge s"
      using ok leadin_inv_room [of s]
      by (cases "cut_point_action opts") (simp_all add: leadin_ok_def)
    then show ?thesis
      using update_context_leadin_ok [OF ok] by (simp add: leadin_ok_def)
  qed
  have b: "LeadinOverflow \<notin> set (sink s')"
    if m: "1 \<le> min_signal_len s0" and l: "cutter_loop opts s0 = Inr s'"
  proof -
    from l obtain s1 where d: "cutter_do opts s0 = Inr s1"
      and s': "s' = (if frames_remaining s1 = 0 then force_end_of_track opts s1 else s1)"
      by (auto simp: cutter_loop_def split: sum.splits)
    have "leadin_ok opts s1"
      using cutter_do_leadin_ok [OF d init_state_leadin_ok [OF assms m]] .
    then show ?thesis
      using force_end_of_track_no_overflow [of opts s1] by (auto simp: s' leadin_ok_def)
  qed
  have c: "leadin_buf_edge s = 0
      \<and> cut_context (update_context opts s) = CCTX_TRACK_STARTING
      \<and> sink (update_context opts s) = sink s @ [LeadinOverflow]
      \<and> leadin_buf (update_context opts s) = leadin_buf s
      \<and> leadin_buf_end (update_context opts s) = leadin_buf_end s"
    if m: "min_signal_len s0 = 0" and x: "cut_point_action opts = CPA_EXTRACT_TRACK"
      and t: "cutter_ticks opts s0 s" and q: "cut_context s = CCTX_SILENCE"
      and g: "we_have_signal s"
  proof -
    have "leadin_buf_edge s = 0"
      using cutter_ticks_seg_consts [OF t] i(6) [OF x] m by simp
    then show ?thesis
      using x q g by (simp add: seg_eval)
  qed
  from a b c show ?thesis by blast
qed

section \<open>Example runs: extraction\<close>

lemma ex_extract_run:
  "\<exists>s0 s. init_state ex_opts_extract ex_file None = Inr s0
     \<and> cutter_loop ex_opts_extract s0 = Inr s
     \<and> sink s = [OutCreate (Numbered 1), OutWrite [[1]], OutWrite [[1]], OutWrite [[0]],
                 OutWrite [[0]], OutClose]"
  apply (simp add: init_state_def ex_opts_extract_def ex_opts_def ex_file_def init_options_def
      open_input_file_def zero_state_def init_rings_def init_leading_def
      RMS_WINDOW_PERIOD_def MAX_CHANNELS_def SF_COUNT_MAX_def INT_MAX_def Let_def ex_consts)
  apply (subst prime_buffers.simps)
  apply (simp add: filter_new_frame_def filter_channel_def Let_def)
  apply (subst prime_buffers.simps)
  apply (simp add: init_pointers_def init_cutting_def Let_def ex_consts cutter_loop_def)
  apply (subst cutter_do.simps)
  apply (simp add: tick_eval load_frame_def)
  apply (subst cutter_do.simps)
  apply (simp add: tick_eval load_frame_def create_new_out_file_def leadin_buf_commit_def)
  apply (subst cutter_do.simps)
  apply (simp add: tick_eval load_frame_def)
  apply (subst cutter_do.simps)
  apply (simp add: tick_eval load_frame_def force_end_of_track_def close_out_file_def)
  done

lemma ex_extract_start:
  "\<exists>s0. init_state ex_opts_extract ex_file None = Inr s0 \<and> min_signal_len s0 = 1"
  apply (simp add: init_state_def ex_opts_extract_def ex_opts_def ex_file_def init_options_def
      open_input_file_def zero_state_def init_rings_def init_leading_def
      RMS_WINDOW_PERIOD_def MAX_CHANNELS_def SF_COUNT_MAX_def INT_MAX_def Let_def ex_consts)
  apply (subst prime_buffers.simps)
  apply (simp add: filter_new_frame_def filter_channel_def Let_def)
  apply (subst prime_buffers.simps)
  apply (simp add: init_pointers_def init_cutting_def Let_def ex_consts)
  done

lemma ex_short_signal:
  "\<exists>s0. init_state ex_opts_short ex_file None = Inr s0 \<and> we_have_signal s0"
  apply (simp add: init_state_def ex_opts_short_def ex_opts_def ex_file_def init_options_def
      open_input_file_def zero_state_def init_rings_def init_leading_def
      RMS_WINDOW_PERIOD_def MAX_CHANNELS_def SF_COUNT_MAX_def INT_MAX_def Let_def ex_consts)
  apply (subst prime_buffers.simps)
  apply (simp add: filter_new_frame_def filter_channel_def Let_def)
  apply (subst prime_buffers.simps)
  apply (simp add: init_pointers_def init_cutting_def Let_def ex_consts we_have_signal_iff)
  done

lemma ex_short_len:
  "\<exists>s0. init_state ex_opts_short ex_file None = Inr s0 \<and> min_signal_len s0 = 0"
  apply (simp add: init_state_def ex_opts_short_def ex_opts_def ex_file_def init_options_def
      open_input_file_def zero_state_def init_rings_def init_leading_def
      RMS_WINDOW_PERIOD_def MAX_CHANNELS_def SF_COUNT_MAX_def INT_MAX_def Let_def ex_consts)
  apply (subst prime_buffers.simps)
  apply (simp add: filter_new_frame_def filter_channel_def Let_def)
  apply (subst prime_buffers.simps)
  apply (simp add: init_pointers_def init_cutting_def Let_def ex_consts)
  done

lemma ex_extract_fields:
  "init_state ex_opts_extract ex_file None = Inr ex_start_extract"
  "cutter_loop ex_opts_extract ex_start_extract = Inr ex_final_extract"
  "sink ex_final_extract = [OutCreate (Numbered 1), OutWrite [[1]], OutWrite [[1]],
     OutWrite [[0]], OutWrite [[0]], OutClose]"
  using ex_extract_run by (auto simp: ex_start_extract_def ex_final_extract_def)

lemma ex_extract_min_signal_len: "min_signal_len ex_start_extract = 1"
  using ex_extract_start by (auto simp: ex_start_extract_def)

lemma ex_short_fields:
  "init_state ex_opts_short ex_file None = Inr ex_start_short"
  "min_signal_len ex_start_short = 0" "we_have_signal ex_start_short"
  using ex_short_signal ex_short_len by (auto simp: ex_start_short_def)

theorem leadin_buf_never_overflows_witness:
  "LeadinOverflow \<notin> set (sink (update_context ex_opts_extract ex_start_extract))
   \<and> LeadinOverflow \<notin> set (sink ex_final_extract)
   \<and> sink (update_context ex_opts_short ex_start_short) = [LeadinOverflow]"
proof -
  have t: "task ex_opts_extract = TCT_CUTTING" "task ex_opts_short = TCT_CUTTING"
    "cut_point_action ex_opts_short = CPA_EXTRACT_TRACK"
    by (simp_all add: ex_opts_extract_def ex_opts_short_def ex_opts_def init_options_def)
  have q: "cut_context ex_start_short = CCTX_SILENCE"
    using init_state_seg(1) [OF ex_short_fields(1) t(2)] .
  from leadin_buf_never_overflows [OF ex_extract_fields(1) t(1),
      of ex_start_extract ex_final_extract]
    ex_extract_fields(2) ex_extract_min_signal_len
    first_tick [of ex_opts_extract ex_start_extract]
  have a: "LeadinOverflow \<notin> set (sink (update_context ex_opts_extract ex_start_extract))
    \<and> LeadinOverflow \<notin> set (sink ex_final_extract)"
    by simp
  from leadin_buf_never_overflows [OF ex_short_fields(1) t(2), of ex_start_short]
    ex_short_fields(2,3) t(3) q first_tick [of ex_opts_short ex_start_short]
  have "sink (update_context ex_opts_short ex_start_short) = sink ex_start_short @ [LeadinOverflow]"
    by simp
  moreover have "sink ex_start_short = []"
    using init_state_seg(4) [OF ex_short_fields(1) t(2)] t(3) by simp
  ultimately show ?thesis using a by simp
qed

section \<open>The running sum of squares\<close>

lemma filter_channel_others:
  "i \<noteq> main_buf_head s + c \<Longrightarrow> main_buf (filter_channel opts c s) ! i = main_buf s ! i"
  "i \<noteq> sq_buf_head s + c \<Longrightarrow> sq_buf (filter_channel opts c s) ! i = sq_buf s ! i"
  "c' \<noteq> c \<Longrightarrow> x_sq_ttl (filter_channel opts c s) ! c' = x_sq_ttl s ! c'"
  by (simp_all add: filter_channel_def Let_def)

lemma filter_channel_plain:
  assumes "\<not> high_pass_filter_enabled opts" "main_buf_head s + c < length (main_buf s)"
  shows "main_buf (filter_channel opts c s) ! (main_buf_head s + c)
     = main_buf s ! (main_buf_head s + c) + dc_offset opts ! c"
  using assms by (simp add: filter_channel_def Let_def)

lemma fold_filter_channel_others:
  shows "(\<forall>c\<in>set cs. i \<noteq> main_buf_head s + c)
      \<Longrightarrow> main_buf (fold (filter_channel opts) cs s) ! i = main_buf s ! i"
    and "(\<forall>c\<in>set cs. i \<noteq> sq_buf_head s + c)
      \<Longrightarrow> sq_buf (fold (filter_channel opts) cs s) ! i = sq_buf s ! i"
    and "c' \<notin> set cs \<Longrightarrow> x_sq_ttl (fold (filter_channel opts) cs s) ! c' = x_sq_ttl s ! c'"
proof (induction cs arbitrary: s)
  case Nil
  {
    case 1 show ?case by simp
  next
    case 2 show ?case by simp
  next
    case 3 show ?case by simp
  }
next
  case (Cons c cs)
  {
    case 1
    then have "main_buf (filter_channel opts c s) ! i = main_buf s ! i"
      by (simp add: filter_channel_others)
    with 1 Cons.IH(1) [of "filter_channel opts c s"] show ?case by simp
  next
    case 2
    then have "sq_buf (filter_channel opts c s) ! i = sq_buf s ! i"
      by (simp add: filter_channel_others)
    with 2 Cons.IH(2) [of "filter_channel opts c s"] show ?case by simp
  next
    case 3
    then have "x_sq_ttl (filter_channel opts c s) ! c' = x_sq_ttl s ! c'"
      by (simp add: filter_channel_others)
    with 3 Cons.IH(3) [of "filter_channel opts c s"] show ?case by simp
  }
qed


lemma fold_filter_channel_own:
  fixes opts :: options
  assumes "c \<in> set cs" "distinct cs"
    and "main_buf_head s + c < length (main_buf s)" "sq_buf_head s + c < length (sq_buf s)"
    and "c < length (x_sq_ttl s)"
  defines "s' \<equiv> fold (filter_channel opts) cs s"
  shows "sq_buf s' ! (sq_buf_head s + c)
           = main_buf s' ! (main_buf_head s + c) * main_buf s' ! (main_buf_head s + c)
       \<and> x_sq_ttl s' ! c
           = x_sq_ttl s ! c - sq_buf s ! (sq_buf_head s + c) + sq_buf s' ! (sq_buf_head s + c)
       \<and> (\<not> high_pass_filter_enabled opts \<longrightarrow>
            main_buf s' ! (main_buf_head s + c)
              = main_buf s ! (main_buf_head s + c) + dc_offset opts ! c)"
  using assms(1-5) unfolding s'_def
proof (induction cs arbitrary: s)
  case Nil
  then show ?case by simp
next
  case (Cons d cs)
  define s1 where "s1 = filter_channel opts d s"
  have heads: "main_buf_head s1 = main_buf_head s" "sq_buf_head s1 = sq_buf_head s"
    "length (main_buf s1) = length (main_buf s)" "length (sq_buf s1) = length (sq_buf s)"
    "length (x_sq_ttl s1) = length (x_sq_ttl s)"
    by (simp_all add: s1_def)
  show ?case
  proof (cases "c = d")
    case True
    with Cons.prems have nin: "\<forall>e\<in>set cs. main_buf_head s1 + c \<noteq> main_buf_head s1 + e"
      "\<forall>e\<in>set cs. sq_buf_head s1 + c \<noteq> sq_buf_head s1 + e" "c \<notin> set cs"
      by auto
    note o = fold_filter_channel_others(1) [OF nin(1), of opts]
      fold_filter_channel_others(2) [OF nin(2), of opts]
      fold_filter_channel_others(3) [OF nin(3), of opts s1]
    have "sq_buf s1 ! (sq_buf_head s + c)
            = main_buf s1 ! (main_buf_head s + c) * main_buf s1 ! (main_buf_head s + c)"
      using Cons.prems(4) unfolding s1_def True
      by (subst filter_channel_sq_buf) simp
    moreover have "x_sq_ttl s1 ! c
        = x_sq_ttl s ! c - sq_buf s ! (sq_buf_head s + c) + sq_buf s1 ! (sq_buf_head s + c)"
      using Cons.prems(4,5) unfolding s1_def True
      by (simp add: filter_channel_x_sq_ttl filter_channel_sq_buf)
    moreover have "\<not> high_pass_filter_enabled opts \<longrightarrow>
        main_buf s1 ! (main_buf_head s + c)
          = main_buf s ! (main_buf_head s + c) + dc_offset opts ! c"
      using Cons.prems(3) unfolding s1_def True
      by (simp add: filter_channel_plain)
    ultimately show ?thesis
      using o by (simp add: s1_def [symmetric] heads)
  next
    case False
    with Cons.prems have c: "c \<in> set cs" "distinct cs" by simp_all
    from Cons.IH [OF c, of s1] Cons.prems(3-5)
    have "sq_buf (fold (filter_channel opts) cs s1) ! (sq_buf_head s + c)
           = main_buf (fold (filter_channel opts) cs s1) ! (main_buf_head s + c)
             * main_buf (fold (filter_channel opts) cs s1) ! (main_buf_head s + c)
       \<and> x_sq_ttl (fold (filter_channel opts) cs s1) ! c
           = x_sq_ttl s1 ! c - sq_buf s1 ! (sq_buf_head s + c)
             + sq_buf (fold (filter_channel opts) cs s1) ! (sq_buf_head s + c)
       \<and> (\<not> high_pass_filter_enabled opts \<longrightarrow>
            main_buf (fold (filter_channel opts) cs s1) ! (main_buf_head s + c)
              = main_buf s1 ! (main_buf_head s + c) + dc_offset opts ! c)"
      by (simp add: heads)
    moreover have "x_sq_ttl s1 ! c = x_sq_ttl s ! c"
      "sq_buf s1 ! (sq_buf_head s + c) = sq_buf s ! (sq_buf_head s + c)"
      "main_buf s1 ! (main_buf_head s + c) = main_buf s ! (main_buf_head s + c)"
      using False by (simp_all add: s1_def filter_channel_others)
    ultimately show ?thesis
      by (simp add: s1_def [symmetric])
  qed
qed

text \<open>
  \<^verbatim>\<open>filter_new_frame\<close> on a head frame inside the rings: outside the head frame both
  rings are as they were; on the head frame the ring of squares holds the squares of
  the samples now in the main ring, and the running sum of every channel has lost the
  entry that was at the head and gained the new one.
\<close>

lemma filter_new_frame_effect:
  fixes opts :: options
  assumes "main_buf_head s + numchannels s \<le> length (main_buf s)"
    "sq_buf_head s + numchannels s \<le> length (sq_buf s)"
    "numchannels s \<le> length (x_sq_ttl s)"
  defines "s' \<equiv> filter_new_frame opts s"
  shows "\<And>i. i < main_buf_head s \<or> main_buf_head s + numchannels s \<le> i
            \<Longrightarrow> main_buf s' ! i = main_buf s ! i"
    and "\<And>i. i < sq_buf_head s \<or> sq_buf_head s + numchannels s \<le> i
            \<Longrightarrow> sq_buf s' ! i = sq_buf s ! i"
    and "\<And>c. c < numchannels s \<Longrightarrow>
           sq_buf s' ! (sq_buf_head s + c)
             = main_buf s' ! (main_buf_head s + c) * main_buf s' ! (main_buf_head s + c)"
    and "\<And>c. c < numchannels s \<Longrightarrow>
           x_sq_ttl s' ! c
             = x_sq_ttl s ! c - sq_buf s ! (sq_buf_head s + c) + sq_buf s' ! (sq_buf_head s + c)"
    and "\<And>c. c < numchannels s \<Longrightarrow> \<not> high_pass_filter_enabled opts \<Longrightarrow>
           main_buf s' ! (main_buf_head s + c)
             = main_buf s ! (main_buf_head s + c) + dc_offset opts ! c"
proof -
  have s': "main_buf s' = main_buf (fold (filter_channel opts) [0..<numchannels s] s)"
    "sq_buf s' = sq_buf (fold (filter_channel opts) [0..<numchannels s] s)"
    "x_sq_ttl s' = x_sq_ttl (fold (filter_channel opts) [0..<numchannels s] s)"
    by (simp_all add: s'_def filter_new_frame_def Let_def)
  show "main_buf s' ! i = main_buf s ! i"
    if "i < main_buf_head s \<or> main_buf_head s + numchannels s \<le> i" for i
    unfolding s' using that by (intro fold_filter_channel_others(1)) auto
  show "sq_buf s' ! i = sq_buf s ! i"
    if "i < sq_buf_head s \<or> sq_buf_head s + numchannels s \<le> i" for i
    unfolding s' using that by (intro fold_filter_channel_others(2)) auto
  have own: "sq_buf s' ! (sq_buf_head s + c)
           = main_buf s' ! (main_buf_head s + c) * main_buf s' ! (main_buf_head s + c)
       \<and> x_sq_ttl s' ! c
           = x_sq_ttl s ! c - sq_buf s ! (sq_buf_head s + c) + sq_buf s' ! (sq_buf_head s + c)
       \<and> (\<not> high_pass_filter_enabled opts \<longrightarrow>
            main_buf s' ! (main_buf_head s + c)
              = main_buf s ! (main_buf_head s + c) + dc_offset opts ! c)"
    if "c < numchannels s" for c
    unfolding s' using that assms(1-3)
    by (intro fold_filter_channel_own) simp_all
  show "sq_buf s' ! (sq_buf_head s + c)
      = main_buf s' ! (main_buf_head s + c) * main_buf s' ! (main_buf_head s + c)"
    if "c < numchannels s" for c
    using own [OF that] by simp
  show "x_sq_ttl s' ! c
      = x_sq_ttl s ! c - sq_buf s ! (sq_buf_head s + c) + sq_buf s' ! (sq_buf_head s + c)"
    if "c < numchannels s" for c
    using own [OF that] by simp
  show "main_buf s' ! (main_buf_head s + c)
      = main_buf s ! (main_buf_head s + c) + dc_offset opts ! c"
    if "c < numchannels s" "\<not> high_pass_filter_enabled opts" for c
    using own [OF that(1)] that(2) by simp
qed


definition sq_of_main :: "state \<Rightarrow> bool" where
  "sq_of_main s \<longleftrightarrow> (\<forall>i<length (sq_buf s). sq_buf s ! i = main_buf s ! i * main_buf s ! i)"

definition frames_ok :: "rd_item list \<Rightarrow> nat \<Rightarrow> bool" where
  "frames_ok items C \<longleftrightarrow> (\<forall>f. Frame f \<in> set items \<longrightarrow> length f = C)"

lemma frames_ok_subset: "set xs \<subseteq> set ys \<Longrightarrow> frames_ok ys C \<Longrightarrow> frames_ok xs C"
  by (auto simp: frames_ok_def)

lemma sf_readf_double_rest:
  "sf_readf_double items n = Some (fs, rest) \<Longrightarrow> set rest \<subseteq> set items"
proof (induction items n arbitrary: fs rest rule: sf_readf_double.induct)
  case (4 f rest0 n)
  then show ?case by (auto split: option.splits)
qed auto

lemma fetch_source_main_buf:
  assumes "fetch_source s = Inr (eof, s1)" "frames_ok (in_file s) (numchannels s)"
  shows "\<exists>f. length f = numchannels s
            \<and> main_buf s1 = store_frame (main_buf s) (main_buf_tail s) f"
    and "set (in_file s1) \<subseteq> set (in_file s)"
proof -
  have one: "fs = [] \<or> (\<exists>f. fs = [f] \<and> Frame f \<in> set items)"
    if "sf_readf_double items 1 = Some (fs, rest)" for items fs rest
    using that by (cases items; cases "hd items") (auto split: option.splits)
  show "\<exists>f. length f = numchannels s
            \<and> main_buf s1 = store_frame (main_buf s) (main_buf_tail s) f"
  proof (cases "\<not> in_eof s \<and> frames_remaining s > 0")
    case True
    with assms(1) obtain fs rest where rd: "sf_readf_double (in_file s) 1 = Some (fs, rest)"
      by (auto simp: fetch_source_def Let_def split: option.splits)
    from one [OF rd] show ?thesis
    proof
      assume "fs = []"
      with assms(1) True rd show ?thesis
        by (auto simp: fetch_source_def Let_def split: if_splits
            intro!: exI [of _ "replicate (numchannels s) 0"])
    next
      assume "\<exists>f. fs = [f] \<and> Frame f \<in> set (in_file s)"
      then obtain f where f: "fs = [f]" "Frame f \<in> set (in_file s)" by blast
      with assms(2) have "length f = numchannels s" by (simp add: frames_ok_def)
      with assms(1) True rd f show ?thesis
        by (auto simp: fetch_source_def Let_def split: if_splits intro!: exI [of _ f])
    qed
  next
    case False
    with assms(1) show ?thesis
      by (auto simp: fetch_source_def Let_def split: if_splits
          intro!: exI [of _ "replicate (numchannels s) 0"])
  qed
  show "set (in_file s1) \<subseteq> set (in_file s)"
    using assms(1) sf_readf_double_rest [of "in_file s" 1]
    by (auto simp: fetch_source_def Let_def split: if_splits option.splits prod.splits)
qed


text \<open>
  One call of \<^verbatim>\<open>fetch_next_frame\<close>: the new head frame is the frame that was at the
  tail, the oldest of the window. Its squares are replaced by the squares of the new
  samples, and the running sums lose the old squares and gain the new ones.
\<close>

lemma fetch_next_frame_squares:
  assumes f: "fetch_next_frame opts s = Inr (b, s')" and r: "ring_inv s"
  shows "main_buf_head s' = main_buf_tail s" "sq_buf_head s' = sq_buf_tail s"
    and "\<And>c. c < numchannels s \<Longrightarrow>
           sq_buf s' ! (sq_buf_tail s + c)
             = main_buf s' ! (main_buf_tail s + c) * main_buf s' ! (main_buf_tail s + c)"
    and "\<And>c. c < numchannels s \<Longrightarrow>
           x_sq_ttl s' ! c
             = x_sq_ttl s ! c - sq_buf s ! (sq_buf_tail s + c) + sq_buf s' ! (sq_buf_tail s + c)"
    and "\<And>i. i < sq_buf_tail s \<or> sq_buf_tail s + numchannels s \<le> i
           \<Longrightarrow> sq_buf s' ! i = sq_buf s ! i"
    and "\<And>c. c < numchannels s \<Longrightarrow> \<not> high_pass_filter_enabled opts \<Longrightarrow>
           main_buf s' ! (main_buf_tail s + c) = source_frame s ! c + dc_offset opts ! c"
    and "\<And>i. frames_ok (in_file s) (numchannels s) \<Longrightarrow>
           i < main_buf_tail s \<or> main_buf_tail s + numchannels s \<le> i
           \<Longrightarrow> main_buf s' ! i = main_buf s ! i"
    and "frames_ok (in_file s) (numchannels s) \<Longrightarrow> frames_ok (in_file s') (numchannels s')"
proof -
  from f obtain eof s1 where src: "fetch_source s = Inr (eof, s1)"
    and s': "s' = filter_new_frame opts (advance_buf_ptrs (s1\<lparr>cur_frame_pos := cur_frame_pos s1 + 1\<rparr>))"
    by (auto simp: fetch_next_frame_def Let_def split: sum.splits prod.splits)
  define s3 where "s3 = advance_buf_ptrs (s1\<lparr>cur_frame_pos := cur_frame_pos s1 + 1\<rparr>)"
  note k = fetch_source_src [OF src] fetch_source_seg [OF src]
  have eqs: "sq_buf_tail s = main_buf_tail s" "length (sq_buf s) = length (main_buf s)"
    "numchannels s \<le> length (x_sq_ttl s)"
    using r by (simp_all add: ring_inv_def)
  have s3: "main_buf_head s3 = main_buf_tail s" "sq_buf_head s3 = sq_buf_tail s"
    "numchannels s3 = numchannels s" "main_buf s3 = main_buf s1" "sq_buf s3 = sq_buf s"
    "x_sq_ttl s3 = x_sq_ttl s" "length (main_buf s3) = length (main_buf s)"
    "in_file s3 = in_file s1"
    by (simp_all add: s3_def k) (simp_all add: advance_buf_ptrs_def Let_def k)
  have fit: "main_buf_head s3 + numchannels s3 \<le> length (main_buf s3)"
    "sq_buf_head s3 + numchannels s3 \<le> length (sq_buf s3)"
    "numchannels s3 \<le> length (x_sq_ttl s3)"
    using ring_inv_tail [OF r] eqs by (simp_all add: s3 k)
  have s'': "s' = filter_new_frame opts s3" by (simp add: s' s3_def)
  show "main_buf_head s' = main_buf_tail s" "sq_buf_head s' = sq_buf_tail s"
    by (simp_all add: s'' s3)
  show "sq_buf s' ! (sq_buf_tail s + c)
      = main_buf s' ! (main_buf_tail s + c) * main_buf s' ! (main_buf_tail s + c)"
    if "c < numchannels s" for c
    using filter_new_frame_effect(3) [OF fit, of c opts] that by (simp add: s'' s3)
  show "x_sq_ttl s' ! c
      = x_sq_ttl s ! c - sq_buf s ! (sq_buf_tail s + c) + sq_buf s' ! (sq_buf_tail s + c)"
    if "c < numchannels s" for c
    using filter_new_frame_effect(4) [OF fit, of c opts] that by (simp add: s'' s3)
  show "sq_buf s' ! i = sq_buf s ! i"
    if "i < sq_buf_tail s \<or> sq_buf_tail s + numchannels s \<le> i" for i
    using filter_new_frame_effect(2) [OF fit, of i opts] that by (simp add: s'' s3)
  have src_nth: "source_frame s ! c = main_buf s1 ! (main_buf_tail s + c)"
    if "c < numchannels s" for c
    using that by (simp add: source_frame_def src load_frame_def k)
  show "main_buf s' ! (main_buf_tail s + c) = source_frame s ! c + dc_offset opts ! c"
    if "c < numchannels s" "\<not> high_pass_filter_enabled opts" for c
    using filter_new_frame_effect(5) [OF fit, of c opts] that src_nth
    by (simp add: s'' s3)
  show "main_buf s' ! i = main_buf s ! i"
    if ok: "frames_ok (in_file s) (numchannels s)"
      and i: "i < main_buf_tail s \<or> main_buf_tail s + numchannels s \<le> i" for i
  proof -
    from fetch_source_main_buf(1) [OF src ok] obtain fr where
      fr: "length fr = numchannels s"
        "main_buf s1 = store_frame (main_buf s) (main_buf_tail s) fr"
      by blast
    have "main_buf s1 ! i = main_buf s ! i"
      using i fr by (auto simp: nth_store_frame)
    then show ?thesis
      using filter_new_frame_effect(1) [OF fit, of i opts] i by (simp add: s'' s3)
  qed
  show "frames_ok (in_file s') (numchannels s')"
    if ok: "frames_ok (in_file s) (numchannels s)"
    using frames_ok_subset [OF fetch_source_main_buf(2) [OF src ok] ok]
    by (simp add: s'' s3)
qed

lemma fetch_next_frame_sq_of_main:
  assumes "fetch_next_frame opts s = Inr (b, s')" "ring_inv s" "sq_of_main s"
    "frames_ok (in_file s) (numchannels s)"
  shows "sq_of_main s'"
  unfolding sq_of_main_def
proof (intro allI impI)
  fix i
  assume "i < length (sq_buf s')"
  note q = fetch_next_frame_squares [OF assms(1,2)]
  have eqs: "sq_buf_tail s = main_buf_tail s"
    using assms(2) by (simp add: ring_inv_def)
  have len: "length (sq_buf s') = length (sq_buf s)"
    using fetch_next_frame_ring_inv [OF assms(1,2)] assms(2)
      fetch_next_frame_seg [OF assms(1)]
    by (simp add: ring_inv_def)
  show "sq_buf s' ! i = main_buf s' ! i * main_buf s' ! i"
  proof (cases "i < main_buf_tail s \<or> main_buf_tail s + numchannels s \<le> i")
    case True
    with q(5) [of i] q(7) [OF assms(4), of i] assms(3) \<open>i < length (sq_buf s')\<close>
    show ?thesis by (simp add: eqs len sq_of_main_def)
  next
    case False
    then obtain c where c: "c < numchannels s" "i = main_buf_tail s + c"
      by (metis add_diff_inverse_nat nat_add_left_cancel_less not_le)
    with q(3) [OF c(1)] show ?thesis by (simp add: eqs)
  qed
qed


text \<open>Startup: the priming loop squares every frame from the centre to the edge.\<close>

definition priming :: "nat \<Rightarrow> nat \<Rightarrow> state \<Rightarrow> bool" where
  "priming W C s \<longleftrightarrow>
     numchannels s = C \<and> main_buf_edge s = W * C \<and> length (main_buf s) = W * C \<and>
     length (sq_buf s) = W * C \<and> C \<le> length (x_sq_ttl s) \<and>
     sq_buf_head s = main_buf_head s \<and> (\<exists>h. main_buf_head s = h * C) \<and>
     (\<forall>i. i < main_buf_head s \<and> i < W * C \<longrightarrow> sq_buf s ! i = main_buf s ! i * main_buf s ! i)"

lemma priming_step:
  assumes p: "priming W C s" and lt: "main_buf_head s < main_buf_edge s"
    and C: "0 < numchannels s"
  shows "priming W C ((filter_new_frame opts s)\<lparr>main_buf_head := main_buf_head s + numchannels s,
                                                 sq_buf_head := sq_buf_head s + numchannels s\<rparr>)"
proof -
  from p obtain h where h: "main_buf_head s = h * C" by (auto simp: priming_def)
  have cst: "numchannels s = C" "main_buf_edge s = W * C" "length (main_buf s) = W * C"
    "length (sq_buf s) = W * C" "C \<le> length (x_sq_ttl s)" "sq_buf_head s = main_buf_head s"
    using p by (simp_all add: priming_def)
  have old: "sq_buf s ! i = main_buf s ! i * main_buf s ! i"
    if "i < main_buf_head s" "i < W * C" for i
    using p that by (simp add: priming_def)
  have "h < W" using lt h cst C by simp
  then have "Suc h * C \<le> W * C" by (intro mult_le_mono1) simp
  then have fit: "main_buf_head s + numchannels s \<le> length (main_buf s)"
    "sq_buf_head s + numchannels s \<le> length (sq_buf s)"
    "numchannels s \<le> length (x_sq_ttl s)"
    using h cst by simp_all
  note e = filter_new_frame_effect [OF fit, of _ opts]
  have new: "sq_buf (filter_new_frame opts s) ! i
      = main_buf (filter_new_frame opts s) ! i * main_buf (filter_new_frame opts s) ! i"
    if i: "i < main_buf_head s + C" "i < W * C" for i
  proof (cases "i < main_buf_head s")
    case True
    with e(1) [of i] e(2) [of i] old [OF True i(2)] show ?thesis by (simp add: cst)
  next
    case False
    with i obtain c where c: "c < C" "i = main_buf_head s + c"
      by (metis add_diff_inverse_nat nat_add_left_cancel_less)
    with e(3) [of c] show ?thesis by (simp add: cst)
  qed
  have "main_buf_head s + C = Suc h * C" using h by simp
  then have ex: "\<exists>h'. main_buf_head s + C = h' * C" by blast
  show ?thesis
    unfolding priming_def using cst new ex by simp
qed

lemma init_state_sq_of_main:
  assumes init: "init_state opts sf names = Inr s0"
    and chans: "sf_channels sf \<le> MAX_CHANNELS"
  shows "sq_of_main s0" "set (in_file s0) \<subseteq> set (sf_items sf)"
proof -
  define W where "W = sf_samplerate sf * 50 div 1000"
  define C where "C = sf_channels sf"
  from init obtain s1 fs rest where
    op: "open_input_file opts sf (zero_state\<lparr>cur_track_num := 1\<rparr>) = Inr s1"
    and C0: "0 < numchannels s1"
    and rd: "sf_readf_double (in_file (init_rings s1)) (nat (ra_frame_cnt (init_rings s1)))
       = Some (fs, rest)"
    and s0: "s0 = (if task opts = TCT_CUTTING
           then init_cutting opts names
                  (init_pointers (prime_buffers opts (init_leading fs rest (init_rings s1))))
           else init_pointers (prime_buffers opts (init_leading fs rest (init_rings s1))))"
    by (rule init_state_cases)
  from open_input_file_result [OF op] obtain items start len where
    s1: "s1 = zero_state\<lparr>cur_track_num := 1, in_file := items, samplerate := sf_samplerate sf,
                  numchannels := sf_channels sf, cur_frame_pos := start,
                  frames_remaining := len\<rparr>"
    by auto
  define sb where "sb = init_leading fs rest (init_rings s1)"
  define sc where "sc = prime_buffers opts sb"
  define sd where "sd = init_pointers sc"
  have C: "0 < C" using C0 by (simp add: s1 C_def)
  have sb: "numchannels sb = C" "main_buf_edge sb = W * C"
    "sq_buf sb = replicate (W * C) 0"
    "main_buf sb = store_frame (replicate (W * C) 0) ((W div 2) * C) (concat fs)"
    "x_sq_ttl sb = replicate MAX_CHANNELS 0" "main_buf_head sb = (W div 2) * C"
    "sq_buf_head sb = (W div 2) * C" "in_file sb = rest"
    by (simp_all add: sb_def init_leading_def init_rings_def Let_def s1 zero_state_def
        W_def C_def RMS_WINDOW_PERIOD_def)
  have "priming W C sb"
    unfolding priming_def sb using C chans
    by (auto simp: nth_store_frame C_def)
  from prime_buffers_rule [of "priming W C", OF this priming_step, of opts]
  have sc: "priming W C sc" "\<not> main_buf_head sc < main_buf_edge sc"
    using C by (auto simp: sc_def priming_def)
  then have "sq_of_main sc"
    by (auto simp: sq_of_main_def priming_def)
  then have "sq_of_main sd"
    by (simp add: sq_of_main_def sd_def init_pointers_def)
  moreover have rp: "ring_part s0 = ring_part sd" and mb: "main_buf s0 = main_buf sd"
    by (simp_all add: s0 sd_def sc_def sb_def init_cutting_ring_part)
  ultimately show "sq_of_main s0"
    by (simp add: sq_of_main_def ring_part_def)
  have keep: "prime_keep sc = prime_keep sb"
    by (simp add: sc_def prime_buffers_keep)
  have "in_file s0 = in_file sd"
    by (simp add: s0 sd_def sc_def sb_def)
  also have "\<dots> = rest"
    using keep by (simp add: sd_def init_pointers_def prime_keep_def sb)
  finally have "in_file s0 = rest" .
  moreover have "set rest \<subseteq> set (in_file (init_rings s1))"
    using sf_readf_double_rest [OF rd] .
  moreover have "set (in_file (init_rings s1)) \<subseteq> set (sf_items sf)"
    using op
    by (auto simp: init_rings_def Let_def open_input_file_def sf_seek_def
        split: option.splits if_splits dest: in_set_dropD)
  ultimately show "set (in_file s0) \<subseteq> set (sf_items sf)" by simp
qed

lemma cutter_ticks_sq_of_main:
  assumes "cutter_ticks opts s0 s" "ring_inv s0" "sq_inv s0" "sq_of_main s0"
    "frames_ok (in_file s0) (numchannels s0)"
  shows "sq_of_main s \<and> frames_ok (in_file s) (numchannels s)"
  using assms
proof (induction rule: cutter_ticks.induct)
  case first_tick
  then show ?case by simp
next
  case (next_tick s s')
  have r: "ring_inv s" using cutter_ticks_ring_inv [OF next_tick.hyps(1) next_tick.prems(1,2)]
    by simp
  then have r': "ring_inv (update_context opts s)" by simp
  have "sq_of_main (update_context opts s)"
    "frames_ok (in_file (update_context opts s)) (numchannels (update_context opts s))"
    using next_tick by (simp_all add: sq_of_main_def)
  with fetch_next_frame_sq_of_main [OF next_tick.hyps(2) r']
    fetch_next_frame_squares(8) [OF next_tick.hyps(2) r']
  show ?case by simp
qed


text \<open>
  Claim C7. At every tick of a run, for every channel \<open>c\<close>, \<open>x_sq_ttl[c]\<close> is the sum of
  the \<open>W\<close> entries of channel \<open>c\<close> in the ring of squares (in exact arithmetic). When
  every frame that the codec delivers has one sample per channel, each of these
  entries is the square of the sample in the same slot of the main ring, so that
  \<open>x_sq_ttl[c]\<close> is the sum of the squares of the \<open>W\<close> resident samples of channel \<open>c\<close>.
  The sum is maintained incrementally: the call of \<^verbatim>\<open>fetch_next_frame\<close> that follows
  the tick makes the evicted tail frame the new head frame, subtracts from
  \<open>x_sq_ttl[c]\<close> the square stored there and adds the square of the new head sample,
  which it stores in its place; the other entries of the ring of squares stay as they
  are. With the high-pass output off, the new head sample is the sample delivered by
  the frame source plus the DC offset of the channel.
\<close>

theorem running_sum_of_squares:
  assumes "init_state opts sf names = Inr s0" "20 \<le> sf_samplerate sf"
    "sf_channels sf \<le> MAX_CHANNELS" "cutter_ticks opts s0 s" "c < numchannels s"
  shows "x_sq_ttl s ! c = (\<Sum>k<rms_window_len s. sq_buf s ! (k * numchannels s + c))
       \<and> (frames_ok (sf_items sf) (sf_channels sf) \<longrightarrow>
            (\<forall>k<rms_window_len s.
               sq_buf s ! (k * numchannels s + c)
                 = main_buf s ! (k * numchannels s + c) * main_buf s ! (k * numchannels s + c))
            \<and> x_sq_ttl s ! c
                = (\<Sum>k<rms_window_len s.
                     main_buf s ! (k * numchannels s + c) * main_buf s ! (k * numchannels s + c)))
       \<and> (fetch_next_frame opts (update_context opts s) = Inr (b, s') \<longrightarrow>
            sq_buf_head s' = sq_buf_tail s \<and> main_buf_head s' = main_buf_tail s
            \<and> x_sq_ttl s' ! c
                = x_sq_ttl s ! c - sq_buf s ! (sq_buf_tail s + c)
                  + sq_buf s' ! (sq_buf_head s' + c)
            \<and> sq_buf s' ! (sq_buf_head s' + c)
                = main_buf s' ! (main_buf_head s' + c) * main_buf s' ! (main_buf_head s' + c)
            \<and> (\<forall>i. i < sq_buf_tail s \<or> sq_buf_tail s + numchannels s \<le> i
                  \<longrightarrow> sq_buf s' ! i = sq_buf s ! i)
            \<and> (\<not> high_pass_filter_enabled opts \<longrightarrow>
                  main_buf s' ! (main_buf_head s' + c)
                    = source_frame (update_context opts s) ! c + dc_offset opts ! c))"
proof -
  note r = run_inv [OF assms(1-4)]
  note i = init_state_inv [OF assms(1-3)]
  have sum: "x_sq_ttl s ! c = (\<Sum>k<rms_window_len s. sq_buf s ! (k * numchannels s + c))"
    using r(2) assms(5) by (simp add: sq_inv_def)
  have sq: "sq_buf s ! (k * numchannels s + c)
      = main_buf s ! (k * numchannels s + c) * main_buf s ! (k * numchannels s + c)"
    if ok: "frames_ok (sf_items sf) (sf_channels sf)" and k: "k < rms_window_len s" for k
  proof -
    have "frames_ok (in_file s0) (numchannels s0)"
      using frames_ok_subset [OF init_state_sq_of_main(2) [OF assms(1,3)] ok] i(5) by simp
    from cutter_ticks_sq_of_main [OF assms(4) i(1,2) init_state_sq_of_main(1) [OF assms(1,3)] this]
    have "sq_of_main s" by simp
    moreover have "k * numchannels s + c < length (sq_buf s)"
      using slot_lt [OF k assms(5)] r(1) by (simp add: ring_inv_def)
    ultimately show ?thesis by (simp add: sq_of_main_def)
  qed
  have step: "sq_buf_head s' = sq_buf_tail s \<and> main_buf_head s' = main_buf_tail s
      \<and> x_sq_ttl s' ! c
          = x_sq_ttl s ! c - sq_buf s ! (sq_buf_tail s + c) + sq_buf s' ! (sq_buf_head s' + c)
      \<and> sq_buf s' ! (sq_buf_head s' + c)
          = main_buf s' ! (main_buf_head s' + c) * main_buf s' ! (main_buf_head s' + c)
      \<and> (\<forall>i. i < sq_buf_tail s \<or> sq_buf_tail s + numchannels s \<le> i
            \<longrightarrow> sq_buf s' ! i = sq_buf s ! i)
      \<and> (\<not> high_pass_filter_enabled opts \<longrightarrow>
            main_buf s' ! (main_buf_head s' + c)
              = source_frame (update_context opts s) ! c + dc_offset opts ! c)"
    if f: "fetch_next_frame opts (update_context opts s) = Inr (b, s')"
  proof -
    have r': "ring_inv (update_context opts s)" using r(1) by simp
    note q = fetch_next_frame_squares [OF f r']
    have c': "c < numchannels (update_context opts s)" using assms(5) by simp
    show ?thesis
      using q(1,2) q(3) [OF c'] q(4) [OF c'] q(5) q(6) [OF c'] by simp
  qed
  have total: "x_sq_ttl s ! c
      = (\<Sum>k<rms_window_len s.
           main_buf s ! (k * numchannels s + c) * main_buf s ! (k * numchannels s + c))"
    if ok: "frames_ok (sf_items sf) (sf_channels sf)"
    unfolding sum by (intro sum.cong refl) (simp add: sq [OF ok])
  from sum sq total step show ?thesis by blast
qed

theorem running_sum_of_squares_witness:
  "x_sq_ttl ex_start ! 0
     = (\<Sum>k<rms_window_len ex_start. sq_buf ex_start ! (k * numchannels ex_start + 0))
   \<and> sq_buf ex_start ! (0 * numchannels ex_start + 0)
       = main_buf ex_start ! (0 * numchannels ex_start + 0)
         * main_buf ex_start ! (0 * numchannels ex_start + 0)
   \<and> x_sq_ttl ex_start ! 0
       = (\<Sum>k<rms_window_len ex_start.
            main_buf ex_start ! (k * numchannels ex_start + 0)
            * main_buf ex_start ! (k * numchannels ex_start + 0))
   \<and> x_sq_ttl (snd ex_fetched) ! 0
       = x_sq_ttl ex_start ! 0 - sq_buf ex_start ! (sq_buf_tail ex_start + 0)
         + sq_buf (snd ex_fetched) ! (sq_buf_head (snd ex_fetched) + 0)
   \<and> sq_buf (snd ex_fetched) ! (sq_buf_head (snd ex_fetched) + 0)
       = main_buf (snd ex_fetched) ! (main_buf_head (snd ex_fetched) + 0)
         * main_buf (snd ex_fetched) ! (main_buf_head (snd ex_fetched) + 0)
   \<and> main_buf (snd ex_fetched) ! (main_buf_head (snd ex_fetched) + 0)
       = source_frame (update_context ex_opts ex_start) ! 0 + dc_offset ex_opts ! 0"
proof -
  have "numchannels ex_start = sf_channels ex_file"
    using init_state_inv(5) [OF ex_start_init ex_file_ok(1,2)] .
  then have c: "0 < numchannels ex_start" by (simp add: ex_file_def)
  have ok: "frames_ok (sf_items ex_file) (sf_channels ex_file)"
    by (auto simp: frames_ok_def ex_file_def)
  have "ReadFault \<notin> set (sf_items ex_file)" by (simp add: ex_file_def)
  with init_state_sq_of_main(2) [OF ex_start_init ex_file_ok(2)]
  have "ReadFault \<notin> set (in_file (update_context ex_opts ex_start))" by auto
  from fetch_next_frame_succeeds [OF this, of ex_opts]
  have f: "fetch_next_frame ex_opts (update_context ex_opts ex_start)
      = Inr (fst ex_fetched, snd ex_fetched)"
    by (auto simp: ex_fetched_def)
  have hp: "\<not> high_pass_filter_enabled ex_opts"
    by (simp add: ex_opts_def init_options_def)
  have W: "0 < rms_window_len ex_start"
    using init_state_inv(1) [OF ex_start_init ex_file_ok(1,2)] by (simp add: ring_inv_def)
  from running_sum_of_squares [OF ex_start_init ex_file_ok(1,2) first_tick c,
      of "fst ex_fetched" "snd ex_fetched"] ok f hp W
  show ?thesis by blast
qed

section \<open>The filter with the high-pass output off\<close>






section \<open>Frames in the main ring\<close>










section \<open>The ring holds the frames of the input\<close>












end
